theory Spec2Isabelle
  imports Complex_Main "HOL-Library.AList" "HOL-Library.Sublist"
begin

section \<open>Strings, paths and the file system\<close>

text \<open>
  A path is the list of its components below the root (\<open>/w/a.jpg\<close> is
  \<open>[''w'', ''a.jpg'']\<close>), so \<open>os.path.basename\<close> is the last component and
  pathlib's \<open>/\<close> appends one. The watched trees are taken to hold no symbolic links and
  the configured roots to be absolute, so \<open>Path.resolve\<close> returns the path it is given.
  Python's \<open>str.lower\<close> is modelled on the ASCII letters.
\<close>

type_synonym path = "string list"

definition lower_char :: "char \<Rightarrow> char" where
  "lower_char c =
     (case map_of (zip ''ABCDEFGHIJKLMNOPQRSTUVWXYZ'' ''abcdefghijklmnopqrstuvwxyz'') c of
        Some l \<Rightarrow> l
      | None \<Rightarrow> c)"

definition lower :: "string \<Rightarrow> string" where
  "lower s = map lower_char s"

definition lstrip :: "char \<Rightarrow> string \<Rightarrow> string" where
  "lstrip c s = dropWhile (\<lambda>x. x = c) s"

definition basename :: "path \<Rightarrow> string" where
  "basename p = (if p = [] then [] else last p)"

definition str_of_path :: "path \<Rightarrow> string" where
  "str_of_path p = concat (map (\<lambda>c. CHR ''/'' # c) p)"

text \<open>
  \<open>os.path.splitext\<close> on a file name: the extension starts at the last dot, unless
  only dots come before it.
\<close>

definition splitext :: "string \<Rightarrow> string \<times> string" where
  "splitext p =
     (let root = rev (drop 1 (dropWhile (\<lambda>c. c \<noteq> CHR ''.'') (rev p)));
          ext = CHR ''.'' # rev (takeWhile (\<lambda>c. c \<noteq> CHR ''.'') (rev p))
      in if list_ex (\<lambda>c. c = CHR ''.'') p \<and> list_ex (\<lambda>c. c \<noteq> CHR ''.'') root
         then (root, ext) else (p, []))"

text \<open>
  \<open>PurePath.suffix\<close>: with \<open>i\<close> the index of the last dot of the name, the suffix is
  \<open>name[i:]\<close> when \<open>0 < i < len(name) - 1\<close> and empty otherwise.
\<close>

definition path_suffix :: "path \<Rightarrow> string" where
  "path_suffix p =
     (let name = basename p;
          tail = rev (takeWhile (\<lambda>c. c \<noteq> CHR ''.'') (rev name));
          stem = rev (drop 1 (dropWhile (\<lambda>c. c \<noteq> CHR ''.'') (rev name)))
      in if list_ex (\<lambda>c. c = CHR ''.'') name \<and> stem \<noteq> [] \<and> tail \<noteq> []
         then CHR ''.'' # tail else [])"

text \<open>
  A node is a directory or a regular file with its bytes; the flag says whether the
  process may read it. The file system is an association list, whose order stands for the
  order in which the operating system enumerates entries.
\<close>

datatype node = Directory bool | RegularFile string bool

type_synonym filesystem = "(path \<times> node) list"

definition path_exists :: "filesystem \<Rightarrow> path \<Rightarrow> bool" where
  "path_exists fs p = (map_of fs p \<noteq> None)"

definition isfile :: "filesystem \<Rightarrow> path \<Rightarrow> bool" where
  "isfile fs p = (case map_of fs p of Some (RegularFile c r) \<Rightarrow> True | _ \<Rightarrow> False)"

definition isdir :: "filesystem \<Rightarrow> path \<Rightarrow> bool" where
  "isdir fs p = (case map_of fs p of Some (Directory r) \<Rightarrow> True | _ \<Rightarrow> False)"

definition access_R_OK :: "filesystem \<Rightarrow> path \<Rightarrow> bool" where
  "access_R_OK fs p =
     (case map_of fs p of Some (Directory r) \<Rightarrow> r | Some (RegularFile c r) \<Rightarrow> r | None \<Rightarrow> False)"

definition getsize :: "filesystem \<Rightarrow> path \<Rightarrow> nat" where
  "getsize fs p = (case map_of fs p of Some (RegularFile c r) \<Rightarrow> length c | _ \<Rightarrow> 0)"

text \<open>\<open>open(path, "rb").read()\<close>: the bytes, or \<open>None\<close> where \<open>open\<close> raises.\<close>

definition read_file :: "filesystem \<Rightarrow> path \<Rightarrow> string option" where
  "read_file fs p =
     (case map_of fs p of Some (RegularFile c r) \<Rightarrow> (if r then Some c else None) | _ \<Rightarrow> None)"

section \<open>The environment: library calls and collaborators\<close>

text \<open>
  What the code calls and this repository does not define is a parameter: the MD5 digest
  of a byte string as lowercase hex, \<open>strftime\<close> of a clock reading, whether saving a
  Media object for a source file succeeds, and whether a watchdog observer starts for a
  directory.
\<close>

record env =
  md5_hex :: "string \<Rightarrow> string"
  strftime :: "string \<Rightarrow> real \<Rightarrow> string"
  save_ok :: "path \<Rightarrow> bool"
  observer_ok :: "path \<Rightarrow> bool"

section \<open>Media and the import ledger\<close>

text \<open>
  The fields of a Media object that the two watchers set or read. \<open>m_id\<close> is the primary
  key, which also stands for the friendly token. A field the watcher leaves to the
  model's default is \<open>None\<close>.
\<close>

record Media =
  m_id :: nat
  m_user :: string
  m_title :: "string option"
  m_description :: "string option"
  m_md5sum :: "string option"
  m_state :: "string option"
  m_file :: string
  m_channel :: "string option"
  m_categories :: "string list"
  m_tags :: "string list"
  m_allow_download :: "bool option"
  m_is_reviewed :: "bool option"

type_synonym datetime = nat

text \<open>\<open>MediaAutoImportRecord\<close> of files/models/auto\_import.py, keyed by \<open>source_path\<close>.\<close>

record MediaAutoImportRecord =
  config_name :: string
  media_id :: "nat option"
  md5sum :: "string option"
  imported_at :: "datetime option"
  last_seen :: datetime

text \<open>\<open>is_imported\<close> is \<open>bool(self.media_id)\<close>: false for a null key and for the key 0.\<close>

definition is_imported :: "MediaAutoImportRecord \<Rightarrow> bool" where
  "is_imported r = (case media_id r of None \<Rightarrow> False | Some i \<Rightarrow> i \<noteq> 0)"

type_synonym ledger = "path \<rightharpoonup> MediaAutoImportRecord"

text \<open>
  \<open>MediaAutoImportRecord.objects.get_or_create(source_path=..., defaults={"config_name": ...})\<close>:
  the row of that path, or a new row whose \<open>last_seen\<close> is set by \<open>auto_now\<close>.
\<close>

definition get_or_create ::
  "datetime \<Rightarrow> path \<Rightarrow> string \<Rightarrow> ledger \<Rightarrow> MediaAutoImportRecord \<times> bool \<times> ledger" where
  "get_or_create now source_path cfg_name l =
     (case l source_path of
        Some r \<Rightarrow> (r, False, l)
      | None \<Rightarrow>
          (let r = \<lparr>config_name = cfg_name, media_id = None, md5sum = None,
                    imported_at = None, last_seen = now\<rparr>
           in (r, True, l(source_path \<mapsto> r))))"

text \<open>
  Lines 100 to 111 of \<open>process_config\<close>: get or create the row, and for a row that was
  there save \<open>last_seen\<close> (refreshed by \<open>auto_now\<close>) and the configuration name when it
  differs.
\<close>

definition observe_path ::
  "datetime \<Rightarrow> path \<Rightarrow> string \<Rightarrow> ledger \<Rightarrow> MediaAutoImportRecord \<times> bool \<times> ledger" where
  "observe_path now source_path cfg_name l =
     (case get_or_create now source_path cfg_name l of
        (record, created, l1) \<Rightarrow>
          if \<not> created then
            (let record1 = (if config_name record \<noteq> cfg_name
                            then record\<lparr>config_name := cfg_name\<rparr> else record);
                 record2 = record1\<lparr>last_seen := now\<rparr>
             in (record2, created, l1(source_path \<mapsto> record2)))
          else (record, created, l1))"

text \<open>
  \<open>on_delete=models.SET_NULL\<close> on the \<open>media\<close> foreign key: deleting a Media object
  nulls the reference of every ledger row that points to it and leaves their other
  fields.
\<close>

definition set_null :: "nat \<Rightarrow> ledger \<Rightarrow> ledger" where
  "set_null i l =
     (\<lambda>p. case l p of
             None \<Rightarrow> None
           | Some r \<Rightarrow> Some (if media_id r = Some i then r\<lparr>media_id := None\<rparr> else r))"

section \<open>The poll-scan command (watch\_media\_directories.py)\<close>

text \<open>
  The state the command reads and writes: the ledger table, the Media table with its
  next primary key, the user, channel, category and tag tables, the file system and the
  two output streams. Output lines are kept as values, one constructor per message. The
  event-driven monitor works on the same tables and file system.
\<close>

datatype message =
    NoWatchDirs
  | Interrupted
  | WouldImport path
  | Imported path nat
  | FailedToImport path

record world =
  ledger :: ledger
  media :: "Media list"
  next_media_id :: nat
  users :: "(string \<times> string) list"
  channels :: "(string \<times> string \<times> string) list"
  categories :: "(string \<times> string) list"
  tags :: "(string \<times> string) list"
  files :: filesystem
  stdout :: "message list"
  stderr :: "message list"

record options =
  once :: bool
  interval :: int
  dry_run :: bool
  force :: bool

text \<open>
  One entry of \<open>MEDIA_AUTO_IMPORT_DIRECTORIES\<close>. A key the dictionary lacks is \<open>None\<close>;
  the list-valued keys default to the empty list.
\<close>

record watch_config =
  cfg_path :: "path option"
  cfg_name :: "string option"
  cfg_recursive :: "bool option"
  cfg_extensions :: "string list"
  cfg_delete_after_import :: bool
  cfg_user :: "string option"
  cfg_channel :: "string option"
  cfg_categories :: "string list"
  cfg_tags :: "string list"
  cfg_state :: "string option"
  cfg_allow_download :: "bool option"
  cfg_is_reviewed :: "bool option"
  cfg_description :: "string option"

datatype command_error =
    MissingPathKey
  | WatchDirMissing path
  | UserRequired
  | UserNotFound string
  | ChannelNotFound string
  | CategoryNotFound string

text \<open>Python truthiness of an optional string: \<open>None\<close> and the empty string are false.\<close>

definition truthy :: "string option \<Rightarrow> bool" where
  "truthy v = (case v of None \<Rightarrow> False | Some s \<Rightarrow> s \<noteq> [])"

definition normalise_extensions :: "string list \<Rightarrow> string list" where
  "normalise_extensions exts = map (\<lambda>ext. lstrip (CHR ''.'') (lower ext)) exts"

definition resolve_user :: "watch_config \<Rightarrow> world \<Rightarrow> command_error + string" where
  "resolve_user config s =
     (if \<not> truthy (cfg_user config) then Inl UserRequired
      else let identifier = the (cfg_user config) in
        (case find (\<lambda>(username, email). username = identifier \<or> email = identifier) (users s) of
           None \<Rightarrow> Inl (UserNotFound identifier)
         | Some (username, email) \<Rightarrow> Inr username))"

definition resolve_channel ::
  "watch_config \<Rightarrow> string \<Rightarrow> world \<Rightarrow> command_error + string option" where
  "resolve_channel config user s =
     (if \<not> truthy (cfg_channel config) then Inr None
      else let identifier = the (cfg_channel config) in
        (case find (\<lambda>(token, title, owner). token = identifier \<or> (title = identifier \<and> owner = user))
                (channels s) of
           None \<Rightarrow> Inl (ChannelNotFound identifier)
         | Some (token, title, owner) \<Rightarrow> Inr (Some token)))"

fun resolve_categories :: "string list \<Rightarrow> world \<Rightarrow> command_error + string list" where
  "resolve_categories [] s = Inr []"
| "resolve_categories (v # vs) s =
     (if v = [] then resolve_categories vs s
      else (case find (\<lambda>(uid, title). uid = v \<or> title = v) (categories s) of
              None \<Rightarrow> Inl (CategoryNotFound v)
            | Some (uid, title) \<Rightarrow>
                (case resolve_categories vs s of
                   Inl e \<Rightarrow> Inl e
                 | Inr cs \<Rightarrow> Inr (uid # cs))))"

text \<open>\<open>Tag.objects.get_or_create(title=value, defaults={"user": user})\<close> for every non-empty value.\<close>

fun resolve_tags :: "string list \<Rightarrow> string \<Rightarrow> (string \<times> string) list \<Rightarrow> string list \<times> (string \<times> string) list" where
  "resolve_tags [] user tbl = ([], tbl)"
| "resolve_tags (v # vs) user tbl =
     (if v = [] then resolve_tags vs user tbl
      else let tbl1 = (if map_of tbl v = None then tbl @ [(v, user)] else tbl) in
        (case resolve_tags vs user tbl1 of (ts, tbl2) \<Rightarrow> (v # ts, tbl2)))"

text \<open>
  \<open>_iter_files\<close>: \<open>rglob("*")\<close> names every path below the base, \<open>glob("*")\<close> its direct
  children. The generator tests \<open>is_file()\<close> when it reaches an item, so that test is made
  in \<open>process_files\<close>, against the file system of that moment.
\<close>

definition iter_files :: "filesystem \<Rightarrow> path \<Rightarrow> bool \<Rightarrow> path list" where
  "iter_files fs base_path recursive =
     filter (\<lambda>p. if recursive then strict_prefix base_path p
                 else p \<noteq> [] \<and> butlast p = base_path) (map fst fs)"

text \<open>
  Modelled from the spec: \<open>Media.objects.create\<close> (files/models/media.py is not among the
  sources). Section 6 of the specification: the collaborator creates exactly one
  MediaRecord, with a computed checksum attached as part of its own initialization, or
  fails.
\<close>

definition create_media :: "env \<Rightarrow> path \<Rightarrow> string \<Rightarrow> Media \<Rightarrow> world \<Rightarrow> (Media \<times> world) option" where
  "create_media E file_path bytes init s =
     (if save_ok E file_path then
        (let m = init\<lparr>m_id := next_media_id s, m_md5sum := Some (md5_hex E bytes)\<rparr>
         in Some (m, s\<lparr>media := media s @ [m], next_media_id := Suc (next_media_id s)\<rparr>))
      else None)"

text \<open>
  \<open>_import_file\<close>, which runs in one transaction: an exception (here \<open>None\<close>) leaves the
  tables as they were.
\<close>

definition import_file ::
  "env \<Rightarrow> path \<Rightarrow> string \<Rightarrow> string option \<Rightarrow> string list \<Rightarrow> string list \<Rightarrow> watch_config
     \<Rightarrow> world \<Rightarrow> (Media \<times> world) option" where
  "import_file E file_path user channel cats tgs config s =
     (case read_file (files s) file_path of
        None \<Rightarrow> None
      | Some bytes \<Rightarrow>
          create_media E file_path bytes
            \<lparr>m_id = 0, m_user = user, m_title = None,
             m_description = (if truthy (cfg_description config) then cfg_description config else None),
             m_md5sum = None,
             m_state = (if truthy (cfg_state config) then cfg_state config else None),
             m_file = basename file_path,
             m_channel = channel, m_categories = cats, m_tags = tgs,
             m_allow_download = cfg_allow_download config,
             m_is_reviewed = cfg_is_reviewed config\<rparr> s)"

text \<open>
  Modelled from the spec: \<open>helpers.rm_file\<close> (files/helpers.py is not among the sources).
  Section 4.5 of the specification: if configured to delete, remove the source file.
\<close>

definition rm_file :: "path \<Rightarrow> filesystem \<Rightarrow> filesystem" where
  "rm_file p fs = (if isfile fs p then AList.delete p fs else fs)"

text \<open>
  The values \<open>process_config\<close> computes before its loop, and the body of the loop for one
  item of \<open>_iter_files\<close>.
\<close>

record resolved =
  r_name :: string
  r_extensions :: "string list"
  r_delete_after :: bool
  r_user :: string
  r_channel :: "string option"
  r_categories :: "string list"
  r_tags :: "string list"
  r_config :: watch_config

definition process_file :: "env \<Rightarrow> datetime \<Rightarrow> resolved \<Rightarrow> options \<Rightarrow> path \<Rightarrow> world \<Rightarrow> world" where
  "process_file E now rc opts file_path s =
     (if \<not> isfile (files s) file_path then s
      else if r_extensions rc \<noteq> []
              \<and> \<not> List.member (r_extensions rc) (lstrip (CHR ''.'') (lower (path_suffix file_path)))
      then s
      else
        (let source_path = file_path in
         case observe_path now source_path (r_name rc) (ledger s) of
           (record, created, l1) \<Rightarrow>
             let s1 = s\<lparr>ledger := l1\<rparr> in
             if is_imported record \<and> \<not> force opts then s1
             else if dry_run opts then s1\<lparr>stdout := stdout s1 @ [WouldImport source_path]\<rparr>
             else
               (case import_file E file_path (r_user rc) (r_channel rc) (r_categories rc)
                       (r_tags rc) (r_config rc) s1 of
                  None \<Rightarrow> s1\<lparr>stderr := stderr s1 @ [FailedToImport source_path]\<rparr>
                | Some (m, s2) \<Rightarrow>
                    let record1 = record\<lparr>media_id := Some (m_id m), imported_at := Some now,
                                         md5sum := m_md5sum m, config_name := r_name rc,
                                         last_seen := now\<rparr>;
                        s3 = s2\<lparr>ledger := (ledger s2)(source_path \<mapsto> record1),
                                stdout := stdout s2 @ [Imported source_path (m_id m)]\<rparr>
                    in if r_delete_after rc then s3\<lparr>files := rm_file source_path (files s3)\<rparr>
                       else s3)))"

fun process_files :: "env \<Rightarrow> datetime \<Rightarrow> resolved \<Rightarrow> options \<Rightarrow> path list \<Rightarrow> world \<Rightarrow> world" where
  "process_files E now rc opts [] s = s"
| "process_files E now rc opts (f # fs) s =
     process_files E now rc opts fs (process_file E now rc opts f s)"

definition process_config ::
  "env \<Rightarrow> datetime \<Rightarrow> watch_config \<Rightarrow> options \<Rightarrow> world \<Rightarrow> command_error + world" where
  "process_config E now config opts s =
     (case cfg_path config of
        None \<Rightarrow> Inl MissingPathKey
      | Some path \<Rightarrow>
          if \<not> path_exists (files s) path \<or> \<not> isdir (files s) path then Inl (WatchDirMissing path)
          else
            (let name = (if truthy (cfg_name config) then the (cfg_name config) else str_of_path path);
                 recursive = (case cfg_recursive config of None \<Rightarrow> True | Some b \<Rightarrow> b);
                 extensions = normalise_extensions (cfg_extensions config);
                 delete_after = cfg_delete_after_import config
             in case resolve_user config s of
                  Inl e \<Rightarrow> Inl e
                | Inr user \<Rightarrow>
                    (case resolve_channel config user s of
                       Inl e \<Rightarrow> Inl e
                     | Inr channel \<Rightarrow>
                         (case resolve_categories (cfg_categories config) s of
                            Inl e \<Rightarrow> Inl e
                          | Inr cats \<Rightarrow>
                              (case resolve_tags (cfg_tags config) user (tags s) of
                                 (tgs, tbl) \<Rightarrow>
                                   Inr (process_files E now
                                          \<lparr>r_name = name, r_extensions = extensions,
                                           r_delete_after = delete_after, r_user = user,
                                           r_channel = channel, r_categories = cats,
                                           r_tags = tgs, r_config = config\<rparr>
                                          opts
                                          (iter_files (files s) path recursive)
                                          (s\<lparr>tags := tbl\<rparr>)))))))"

text \<open>
  \<open>handle\<close>: the loop over the configurations re-raises a \<open>CommandError\<close>, which ends the
  command. No other exception arises in this model. In continuous mode the command runs
  until the user interrupts it; \<open>n\<close> is the number of scans that start before that.
\<close>

fun scan_pass ::
  "env \<Rightarrow> datetime \<Rightarrow> options \<Rightarrow> watch_config list \<Rightarrow> world \<Rightarrow> command_error + world" where
  "scan_pass E now opts [] s = Inr s"
| "scan_pass E now opts (config # configs) s =
     (case process_config E now config opts s of
        Inl e \<Rightarrow> Inl e
      | Inr s' \<Rightarrow> scan_pass E now opts configs s')"

fun handle_loop ::
  "env \<Rightarrow> datetime \<Rightarrow> options \<Rightarrow> watch_config list \<Rightarrow> nat \<Rightarrow> world \<Rightarrow> command_error + world" where
  "handle_loop E now opts configs 0 s = Inr (s\<lparr>stdout := stdout s @ [Interrupted]\<rparr>)"
| "handle_loop E now opts configs (Suc n) s =
     (case scan_pass E now opts configs s of
        Inl e \<Rightarrow> Inl e
      | Inr s' \<Rightarrow>
          if once opts then Inr s'
          else handle_loop E (now + nat (max (interval opts) 1)) opts configs n s')"

definition handle ::
  "env \<Rightarrow> datetime \<Rightarrow> options \<Rightarrow> watch_config list \<Rightarrow> nat \<Rightarrow> world \<Rightarrow> command_error + world" where
  "handle E now opts configs n s =
     (if configs = [] then Inr (s\<lparr>stdout := stdout s @ [NoWatchDirs]\<rparr>)
      else handle_loop E now opts configs n s)"

text \<open>Deleting a Media object, with the cascade of \<open>set_null\<close> on the ledger.\<close>

definition delete_media :: "nat \<Rightarrow> world \<Rightarrow> world" where
  "delete_media i s =
     s\<lparr>media := filter (\<lambda>m. m_id m \<noteq> i) (media s), ledger := set_null i (ledger s)\<rparr>"

section \<open>The event-driven monitor (directory\_monitor.py)\<close>

text \<open>
  \<open>MediaFileHandler\<close>: its configuration, and the dictionary \<open>pending_files\<close> as an
  association list in insertion order. Times are readings of \<open>time.time()\<close>, taken as
  real numbers.
\<close>

record handler =
  h_user :: string
  h_debounce_seconds :: real
  h_extensions :: "string list"
  h_default_state :: string
  h_move_after_import :: bool
  h_processed_dir :: "path option"

type_synonym pending = "(path \<times> real) list"

definition new_handler ::
  "string \<Rightarrow> real \<Rightarrow> string list \<Rightarrow> string \<Rightarrow> bool \<Rightarrow> path option \<Rightarrow> handler" where
  "new_handler user debounce exts default_state move processed =
     \<lparr>h_user = user, h_debounce_seconds = debounce, h_extensions = map lower exts,
      h_default_state = default_state, h_move_after_import = move,
      h_processed_dir = processed\<rparr>"

text \<open>
  \<open>_should_process_file\<close>. The extension of the whole path is the extension of its last
  component.
\<close>

definition should_process_file :: "handler \<Rightarrow> path \<Rightarrow> bool" where
  "should_process_file h file_path =
     (let filename = basename file_path in
      if prefix ''.'' filename \<or> suffix ''.tmp'' filename \<or> suffix ''.part'' filename then False
      else if h_extensions h = [] then True
      else List.member (h_extensions h) (lower (snd (splitext filename))))"

datatype fs_event = FsEvent (is_directory: bool) (src_path: path)

definition on_created :: "handler \<Rightarrow> fs_event \<Rightarrow> real \<Rightarrow> pending \<Rightarrow> pending" where
  "on_created h event now pend =
     (if is_directory event then pend
      else if \<not> should_process_file h (src_path event) then pend
      else AList.update (src_path event) now pend)"

definition on_modified :: "handler \<Rightarrow> fs_event \<Rightarrow> real \<Rightarrow> pending \<Rightarrow> pending" where
  "on_modified h event now pend =
     (if is_directory event then pend
      else if \<not> should_process_file h (src_path event) then pend
      else AList.update (src_path event) now pend)"

text \<open>
  One round of the worker loop \<open>_process_pending_files\<close>, under the lock: it walks a
  copy of the items, and moves each path whose last event is at least the debounce time
  old from the dictionary to \<open>files_to_process\<close>.
\<close>

fun drain :: "handler \<Rightarrow> real \<Rightarrow> (path \<times> real) list \<Rightarrow> pending \<Rightarrow> path list \<times> pending" where
  "drain h current_time [] pend = ([], pend)"
| "drain h current_time ((file_path, event_time) # items) pend =
     (if current_time - event_time \<ge> h_debounce_seconds h then
        (case drain h current_time items (AList.delete file_path pend) of
           (files_to_process, pend') \<Rightarrow> (file_path # files_to_process, pend'))
      else drain h current_time items pend)"

definition process_pending_files :: "handler \<Rightarrow> real \<Rightarrow> pending \<Rightarrow> path list \<times> pending" where
  "process_pending_files h current_time pend = drain h current_time pend pend"

text \<open>
  The handler's life as a sequence of steps in the order in which they take the lock:
  file-system events with the clock reading each stores, and rounds of the worker with
  the clock reading each took. \<open>run\<close> gives the settle notifications, each the path handed
  to \<open>_import_media_file\<close> with the clock reading of its round.
\<close>

datatype action = Created fs_event real | Modified fs_event real | Tick real

fun run :: "handler \<Rightarrow> action list \<Rightarrow> pending \<Rightarrow> (path \<times> real) list" where
  "run h [] pend = []"
| "run h (Created event t # as) pend = run h as (on_created h event t pend)"
| "run h (Modified event t # as) pend = run h as (on_modified h event t pend)"
| "run h (Tick c # as) pend =
     (case process_pending_files h c pend of
        (files_to_process, pend') \<Rightarrow> map (\<lambda>p. (p, c)) files_to_process @ run h as pend')"

text \<open>
  Reading a sequence of steps for one path: the clock readings of the file events for
  the path, the clock readings of the worker's rounds, the steps after the last event
  for the path, whether consecutive readings are less than a window apart, and whether
  the clock is consistent, in that the reading a round took (before it waits for the
  lock) is not after the reading of an event for the path that takes the lock later.
\<close>

fun event_times :: "path \<Rightarrow> action list \<Rightarrow> real list" where
  "event_times p [] = []"
| "event_times p (Created event t # as) =
     (if \<not> is_directory event \<and> src_path event = p then t # event_times p as
      else event_times p as)"
| "event_times p (Modified event t # as) =
     (if \<not> is_directory event \<and> src_path event = p then t # event_times p as
      else event_times p as)"
| "event_times p (Tick c # as) = event_times p as"

fun tick_times :: "action list \<Rightarrow> real list" where
  "tick_times [] = []"
| "tick_times (Tick c # as) = c # tick_times as"
| "tick_times (a # as) = tick_times as"

fun after_last_event :: "path \<Rightarrow> action list \<Rightarrow> action list" where
  "after_last_event p [] = []"
| "after_last_event p (a # as) =
     (if event_times p as \<noteq> [] then after_last_event p as
      else if event_times p [a] \<noteq> [] then as
      else a # as)"

fun gaps_below :: "real \<Rightarrow> real list \<Rightarrow> bool" where
  "gaps_below w (a # b # ts) = (b - a < w \<and> gaps_below w (b # ts))"
| "gaps_below w ts = True"

fun clock_ok :: "path \<Rightarrow> action list \<Rightarrow> bool" where
  "clock_ok p [] = True"
| "clock_ok p (Tick c # as) = (list_all (\<lambda>t. c \<le> t) (event_times p as) \<and> clock_ok p as)"
| "clock_ok p (a # as) = clock_ok p as"

text \<open>The test of line 146 on an item of the dictionary.\<close>

definition ready :: "handler \<Rightarrow> real \<Rightarrow> path \<times> real \<Rightarrow> bool" where
  "ready h c kv = (h_debounce_seconds h \<le> c - snd kv)"

text \<open>
  \<open>Path.mkdir(parents=True, exist_ok=True)\<close> fails when the path or one of its ancestors
  is a regular file, and otherwise creates the directories that are missing.
\<close>

definition mkdir_p :: "path \<Rightarrow> filesystem \<Rightarrow> filesystem option" where
  "mkdir_p d fs =
     (if list_ex (isfile fs) (tl (prefixes d)) then None
      else Some (fold (\<lambda>q f. if path_exists f q then f else f @ [(q, Directory True)])
                   (tl (prefixes d)) fs))"

text \<open>
  \<open>shutil.move\<close> of a regular file: into the destination when that is a directory
  (an error if the name is taken there), and otherwise a rename that replaces the
  destination. \<open>None\<close> is a raised exception.
\<close>

definition shutil_move :: "path \<Rightarrow> path \<Rightarrow> filesystem \<Rightarrow> filesystem option" where
  "shutil_move src dst fs =
     (case map_of fs src of
        Some (RegularFile c r) \<Rightarrow>
          (let real_dst = (if isdir fs dst then dst @ [basename src] else dst) in
           if isdir fs dst \<and> path_exists fs real_dst then None
           else Some (AList.update real_dst (RegularFile c r) (AList.delete src fs)))
      | _ \<Rightarrow> None)"

text \<open>
  Lines 281 to 296 of \<open>_move_processed_file\<close>: the directory and the name the file is
  moved to. \<open>fs\<close> is the file system after the target directory was made.
\<close>

definition target_dir_of :: "path \<Rightarrow> bool \<Rightarrow> path" where
  "target_dir_of processed_dir duplicate =
     processed_dir @ [if duplicate then ''duplicates'' else ''imported'']"

definition target_path_of :: "env \<Rightarrow> real \<Rightarrow> filesystem \<Rightarrow> path \<Rightarrow> path \<Rightarrow> path" where
  "target_path_of E now fs target_dir file_path =
     (let filename = basename file_path;
          target_path = target_dir @ [filename]
      in if path_exists fs target_path then
           (case splitext filename of
              (name, ext) \<Rightarrow>
                let timestamp = strftime E ''%Y%m%d_%H%M%S'' now
                in target_dir @ [name @ ''_'' @ timestamp @ ext])
         else target_path)"

definition move_processed_file ::
  "env \<Rightarrow> real \<Rightarrow> handler \<Rightarrow> path \<Rightarrow> bool \<Rightarrow> filesystem \<Rightarrow> filesystem" where
  "move_processed_file E now h file_path duplicate fs =
     (case h_processed_dir h of
        None \<Rightarrow> fs
      | Some processed_dir \<Rightarrow>
          (let target_dir = target_dir_of processed_dir duplicate in
           case mkdir_p target_dir fs of
             None \<Rightarrow> fs
           | Some fs1 \<Rightarrow>
               (case shutil_move file_path (target_path_of E now fs1 target_dir file_path) fs1 of
                  None \<Rightarrow> fs1
                | Some fs2 \<Rightarrow> fs2)))"

definition calculate_md5 :: "env \<Rightarrow> filesystem \<Rightarrow> path \<Rightarrow> string option" where
  "calculate_md5 E fs file_path = map_option (md5_hex E) (read_file fs file_path)"

text \<open>
  \<open>_import_media_file\<close> returns nothing and raises nothing; the value given here is the
  log line it ends with. \<open>upload_max\<close> is the setting \<open>UPLOAD_MAX_SIZE\<close>, \<open>None\<close> when
  it is not set, and \<open>upload_max_size\<close> is the \<open>getattr\<close> with its default. Saving the
  Media object is the collaborator \<open>create_media\<close>.
\<close>

datatype outcome =
    NoLongerExists
  | NotAFile
  | EmptyFile
  | TooLarge
  | Md5Failed
  | DuplicateSkipped nat
  | ImportedMedia nat
  | ImportFailed

text \<open>
  Lines 229 to 247 of \<open>_import_media_file\<close>: the Media object it builds before saving,
  titled with the file name without its extension.
\<close>

definition handler_media :: "env \<Rightarrow> real \<Rightarrow> handler \<Rightarrow> path \<Rightarrow> string \<Rightarrow> Media" where
  "handler_media E now h file_path digest =
     (let filename = basename file_path;
          title = fst (splitext filename)
      in \<lparr>m_id = 0, m_user = h_user h, m_title = Some title,
          m_description =
            Some (''Auto-imported from directory on '' @ strftime E ''%Y-%m-%d %H:%M:%S'' now),
          m_md5sum = Some digest,
          m_state = (if h_default_state h \<noteq> ''public'' then Some (h_default_state h) else None),
          m_file = filename, m_channel = None, m_categories = [], m_tags = [],
          m_allow_download = None, m_is_reviewed = None\<rparr>)"

definition upload_max_size :: "nat option \<Rightarrow> nat" where
  "upload_max_size upload_max =
     (case upload_max of None \<Rightarrow> 800 * 1024 * 1000 * 5 | Some v \<Rightarrow> v)"

definition import_media_file ::
  "env \<Rightarrow> real \<Rightarrow> nat option \<Rightarrow> handler \<Rightarrow> path \<Rightarrow> world \<Rightarrow> outcome \<times> world" where
  "import_media_file E now upload_max h file_path s =
     (if \<not> path_exists (files s) file_path then (NoLongerExists, s)
      else if \<not> isfile (files s) file_path then (NotAFile, s)
      else
        (let file_size = getsize (files s) file_path in
         if file_size = 0 then (EmptyFile, s)
         else
           (let max_size = upload_max_size upload_max in
            if file_size > max_size then (TooLarge, s)
            else
              (case calculate_md5 E (files s) file_path of
                 None \<Rightarrow> (Md5Failed, s)
               | Some digest \<Rightarrow>
                   if digest = [] then (Md5Failed, s)
                   else
                     (case find (\<lambda>m. m_md5sum m = Some digest) (media s) of
                        Some existing_media \<Rightarrow>
                          (DuplicateSkipped (m_id existing_media),
                           if h_move_after_import h \<and> h_processed_dir h \<noteq> None
                           then s\<lparr>files := move_processed_file E now h file_path True (files s)\<rparr>
                           else s)
                      | None \<Rightarrow>
                          (case create_media E file_path (the (read_file (files s) file_path))
                                  (handler_media E now h file_path digest) s of
                                None \<Rightarrow> (ImportFailed, s)
                              | Some (m, s1) \<Rightarrow>
                                  (ImportedMedia (m_id m),
                                   if h_move_after_import h \<and> h_processed_dir h \<noteq> None
                                   then s1\<lparr>files := move_processed_file E now h file_path False (files s1)\<rparr>
                                   else s1)))))))"

text \<open>
  \<open>DirectoryMonitor\<close>: the settings it reads (with the defaults of \<open>getattr\<close> filled in),
  its observers, each given by the directory it watches, and its handlers.
\<close>

record settings =
  MEDIA_WATCH_DIRS :: "path list"
  MEDIA_WATCH_USER :: string
  MEDIA_WATCH_DEBOUNCE_SECONDS :: real
  MEDIA_WATCH_EXTENSIONS :: "string list"
  MEDIA_WATCH_RECURSIVE :: bool
  MEDIA_WATCH_DEFAULT_STATE :: string
  MEDIA_WATCH_MOVE_AFTER_IMPORT :: bool
  MEDIA_WATCH_PROCESSED_DIR :: "path option"

record monitor =
  observers :: "path list"
  handlers :: "handler list"
  running :: bool

definition valid_dirs_of :: "filesystem \<Rightarrow> path list \<Rightarrow> path list" where
  "valid_dirs_of fs watch_dirs =
     filter (\<lambda>d. path_exists fs d \<and> isdir fs d \<and> access_R_OK fs d) watch_dirs"

definition start :: "env \<Rightarrow> settings \<Rightarrow> monitor \<Rightarrow> world \<Rightarrow> bool \<times> monitor \<times> world" where
  "start E cfg mon s =
     (if MEDIA_WATCH_DIRS cfg = [] then (False, mon, s)
      else if MEDIA_WATCH_USER cfg = [] then (False, mon, s)
      else if \<not> List.member (map fst (users s)) (MEDIA_WATCH_USER cfg) then (False, mon, s)
      else
        (let valid_dirs = valid_dirs_of (files s) (MEDIA_WATCH_DIRS cfg) in
         if valid_dirs = [] then (False, mon, s)
         else
           (case (if MEDIA_WATCH_MOVE_AFTER_IMPORT cfg
                  then (case MEDIA_WATCH_PROCESSED_DIR cfg of
                          None \<Rightarrow> None
                        | Some d \<Rightarrow> mkdir_p d (files s))
                  else Some (files s)) of
              None \<Rightarrow> (False, mon, s)
            | Some fs1 \<Rightarrow>
                (let h = new_handler (MEDIA_WATCH_USER cfg) (MEDIA_WATCH_DEBOUNCE_SECONDS cfg)
                           (MEDIA_WATCH_EXTENSIONS cfg) (MEDIA_WATCH_DEFAULT_STATE cfg)
                           (MEDIA_WATCH_MOVE_AFTER_IMPORT cfg)
                           (if MEDIA_WATCH_MOVE_AFTER_IMPORT cfg
                            then MEDIA_WATCH_PROCESSED_DIR cfg else None);
                     mon1 = mon\<lparr>handlers := handlers mon @ [h]\<rparr>;
                     mon2 = mon1\<lparr>observers := observers mon1 @ filter (observer_ok E) valid_dirs\<rparr>
                 in if observers mon2 = [] then (False, mon2, s\<lparr>files := fs1\<rparr>)
                    else (True, mon2\<lparr>running := True\<rparr>, s\<lparr>files := fs1\<rparr>)))))"

section \<open>Reading a state\<close>

text \<open>
  Whether the ledger says that a path is imported, and the primary keys that a list of
  output lines reports as imported.
\<close>

definition imported_in :: "world \<Rightarrow> path \<Rightarrow> bool" where
  "imported_in s p = (case ledger s p of None \<Rightarrow> False | Some r \<Rightarrow> is_imported r)"

fun imported_ids :: "message list \<Rightarrow> nat list" where
  "imported_ids [] = []"
| "imported_ids (Imported p i # ms) = i # imported_ids ms"
| "imported_ids (m # ms) = imported_ids ms"

fun imported_paths :: "message list \<Rightarrow> path list" where
  "imported_paths [] = []"
| "imported_paths (Imported p i # ms) = p # imported_paths ms"
| "imported_paths (m # ms) = imported_paths ms"

text \<open>The extension test at the head of the loop body, read positively.\<close>

definition passes_filter :: "resolved \<Rightarrow> path \<Rightarrow> bool" where
  "passes_filter rc file_path =
     (r_extensions rc = []
      \<or> List.member (r_extensions rc) (lstrip (CHR ''.'') (lower (path_suffix file_path))))"

text \<open>
  Two ledger rows agree on the fields written at import; and one state grows into another
  when its output and its Media table extend the other's, every Media row added is
  reported by an \<open>Imported\<close> line, and no such line names a path that the ledger of
  the first state has as imported.
\<close>

definition same_import :: "MediaAutoImportRecord \<Rightarrow> MediaAutoImportRecord \<Rightarrow> bool" where
  "same_import r r' = (media_id r' = media_id r \<and> md5sum r' = md5sum r \<and> imported_at r' = imported_at r)"

definition grows :: "world \<Rightarrow> world \<Rightarrow> bool" where
  "grows s s' = (\<exists>new ms. stdout s' = stdout s @ new \<and> media s' = media s @ ms
      \<and> map m_id ms = imported_ids new
      \<and> (\<forall>q \<in> set (imported_paths new). \<not> imported_in s q))"

section \<open>The scenario of test\_watch\_media\_directories.py\<close>

text \<open>
  The fixture of \<open>WatchMediaDirectoriesCommandTest\<close>: one user, a watch directory with
  the file \<open>example.jpg\<close>, a shallow configuration for that user, and the option
  \<open>--once\<close>. The environment accepts every file and every directory; its digest is a
  tagged copy of the bytes, which is all the theorems below need of a digest.
\<close>

definition test_env :: env where
  "test_env = \<lparr>md5_hex = (\<lambda>bytes. ''md5:'' @ bytes),
               strftime = (\<lambda>fmt t. ''20260101_000000''),
               save_ok = (\<lambda>p. True), observer_ok = (\<lambda>d. True)\<rparr>"

definition test_world :: world where
  "test_world =
     \<lparr>ledger = Map.empty, media = [], next_media_id = 1,
      users = [(''auto-importer'', ''auto-importer@example.com'')],
      channels = [], categories = [], tags = [],
      files = [([''w''], Directory True),
               ([''w'', ''example.jpg''], RegularFile ''JPEG'' True)],
      stdout = [], stderr = []\<rparr>"

definition test_config :: watch_config where
  "test_config =
     \<lparr>cfg_path = Some [''w''], cfg_name = None, cfg_recursive = Some False,
      cfg_extensions = [], cfg_delete_after_import = False,
      cfg_user = Some ''auto-importer'', cfg_channel = None, cfg_categories = [],
      cfg_tags = [], cfg_state = None, cfg_allow_download = None,
      cfg_is_reviewed = None, cfg_description = None\<rparr>"

definition test_options :: options where
  "test_options = \<lparr>once = True, interval = 30, dry_run = False, force = False\<rparr>"

text \<open>
  The values \<open>process_config\<close> resolves for \<open>test_config\<close>, and the state the first scan
  of the test leaves: one Media row, and the ledger row of the file pointing to it.
\<close>

definition test_resolved :: resolved where
  "test_resolved =
     \<lparr>r_name = ''/w'', r_extensions = [], r_delete_after = False,
      r_user = ''auto-importer'', r_channel = None, r_categories = [], r_tags = [],
      r_config = test_config\<rparr>"

definition test_world_scanned :: world where
  "test_world_scanned =
     test_world
       \<lparr>ledger := [[''w'', ''example.jpg''] \<mapsto>
                     \<lparr>config_name = ''/w'', media_id = Some 1, md5sum = Some ''md5:JPEG'',
                      imported_at = Some 1, last_seen = 1\<rparr>],
        media := [\<lparr>m_id = 1, m_user = ''auto-importer'', m_title = None,
                   m_description = None, m_md5sum = Some ''md5:JPEG'', m_state = None,
                   m_file = ''example.jpg'', m_channel = None, m_categories = [],
                   m_tags = [], m_allow_download = None, m_is_reviewed = None\<rparr>],
        next_media_id := 2,
        stdout := [Imported [''w'', ''example.jpg''] 1]\<rparr>"

text \<open>
  A monitor as \<open>DirectoryMonitor.__init__\<close> leaves it, and settings for the fixture that
  name the watch directory of the test and a directory that does not exist.
\<close>

definition new_monitor :: monitor where
  "new_monitor = \<lparr>observers = [], handlers = [], running = False\<rparr>"

definition test_settings :: settings where
  "test_settings =
     \<lparr>MEDIA_WATCH_DIRS = [[''w''], [''missing'']], MEDIA_WATCH_USER = ''auto-importer'',
      MEDIA_WATCH_DEBOUNCE_SECONDS = 5, MEDIA_WATCH_EXTENSIONS = [],
      MEDIA_WATCH_RECURSIVE = True, MEDIA_WATCH_DEFAULT_STATE = ''public'',
      MEDIA_WATCH_MOVE_AFTER_IMPORT = False, MEDIA_WATCH_PROCESSED_DIR = None\<rparr>"

text \<open>
  A handler that moves processed files to \<open>/done\<close>, and a file system in which
  \<open>/done/imported\<close> already holds a file named like the one in the watch directory.
\<close>

definition test_handler :: handler where
  "test_handler = new_handler ''auto-importer'' 5 [] ''public'' True (Some [''done''])"

definition test_files_taken :: filesystem where
  "test_files_taken =
     files test_world
     @ [([''done''], Directory True), ([''done'', ''imported''], Directory True),
        ([''done'', ''imported'', ''example.jpg''], RegularFile ''OLD'' True)]"

text \<open>
  Two more watch directories: one with an empty file, a file of four bytes and a file of
  five bytes, and one with two files of the same bytes.
\<close>

definition test_world_sizes :: world where
  "test_world_sizes =
     test_world
       \<lparr>files := [([''w''], Directory True),
                  ([''w'', ''empty.jpg''], RegularFile [] True),
                  ([''w'', ''four.jpg''], RegularFile ''abcd'' True),
                  ([''w'', ''five.jpg''], RegularFile ''abcde'' True)]\<rparr>"


text \<open>
  A burst for the handler of the fixture, whose debounce time is five seconds: the file
  is created at 0 and modified at 2 and at 6, and the worker runs at 3, 7, 11 and 12.
\<close>

definition test_events :: "action list" where
  "test_events =
     [Created (FsEvent False [''w'', ''a.jpg'']) 0,
      Modified (FsEvent False [''w'', ''a.jpg'']) 2,
      Tick 3,
      Modified (FsEvent False [''w'', ''a.jpg'']) 6,
      Tick 7, Tick 11, Tick 12]"

section \<open>The loop of the poll-scan command\<close>

lemma observe_path_fields:
  "observe_path now p name l = (r, created, l') \<Longrightarrow>
     l' p = Some r \<and> (\<forall>q. q \<noteq> p \<longrightarrow> l' q = l q)
     \<and> (case l p of None \<Rightarrow> media_id r = None
         | Some r0 \<Rightarrow> media_id r = media_id r0 \<and> md5sum r = md5sum r0 \<and> imported_at r = imported_at r0)"
  by (auto simp: observe_path_def get_or_create_def Let_def split: option.splits if_splits)

lemma import_file_effect:
  "import_file E f u c cs ts cfg s = Some (m, s') \<Longrightarrow>
     s' = s\<lparr>media := media s @ [m], next_media_id := Suc (next_media_id s)\<rparr> \<and> m_id m = next_media_id s"
  by (auto simp: import_file_def create_media_def Let_def split: option.splits if_splits)

lemma process_file_skip:
  assumes "\<not> force opts" "imported_in s f"
  shows "media (process_file E now rc opts f s) = media s"
    and "stdout (process_file E now rc opts f s) = stdout s"
    and "files (process_file E now rc opts f s) = files s"
  using assms
  by (auto simp: process_file_def imported_in_def is_imported_def Let_def
      dest!: observe_path_fields split: option.splits prod.splits)

lemma process_file_keeps_import:
  assumes "\<not> force opts" "ledger s q = Some r" "is_imported r"
  shows "\<exists>r'. ledger (process_file E now rc opts f s) q = Some r' \<and> same_import r r'"
proof (cases "q = f")
  case True
  with assms show ?thesis
    by (auto simp: process_file_def is_imported_def same_import_def Let_def
        dest!: observe_path_fields split: option.splits prod.splits)
next
  case False
  with assms show ?thesis
    by (auto simp: process_file_def same_import_def Let_def
        dest!: observe_path_fields import_file_effect split: option.splits prod.splits)
qed

lemma process_file_growth:
  "\<exists>new ms. stdout (process_file E now rc opts f s) = stdout s @ new
      \<and> media (process_file E now rc opts f s) = media s @ ms
      \<and> map m_id ms = imported_ids new
      \<and> (\<forall>q \<in> set (imported_paths new). q = f \<and> (force opts \<or> \<not> imported_in s f))"
  by (auto simp: process_file_def imported_in_def is_imported_def Let_def
      dest!: observe_path_fields import_file_effect split: option.splits prod.splits)

lemma imported_ids_append: "imported_ids (xs @ ys) = imported_ids xs @ imported_ids ys"
  by (induction xs rule: imported_ids.induct) auto

lemma imported_paths_append: "imported_paths (xs @ ys) = imported_paths xs @ imported_paths ys"
  by (induction xs rule: imported_paths.induct) auto

lemma same_import_imported: "same_import r r' \<Longrightarrow> is_imported r' = is_imported r"
  by (simp add: same_import_def is_imported_def)

lemma same_import_trans: "same_import r r' \<Longrightarrow> same_import r' r'' \<Longrightarrow> same_import r r''"
  by (simp add: same_import_def)

lemma process_files_keeps_import:
  assumes "\<not> force opts"
  shows "ledger s q = Some r \<Longrightarrow> is_imported r \<Longrightarrow>
         \<exists>r'. ledger (process_files E now rc opts fs s) q = Some r' \<and> same_import r r'"
proof (induction fs arbitrary: s r)
  case Nil
  then show ?case by (simp add: same_import_def)
next
  case (Cons f fs)
  from process_file_keeps_import [OF assms Cons.prems, of E now rc f]
  obtain r1 where r1: "ledger (process_file E now rc opts f s) q = Some r1" "same_import r r1"
    by blast
  then have "is_imported r1" using Cons.prems(2) by (simp add: same_import_imported)
  from Cons.IH [OF r1(1) this]
  obtain r2 where "ledger (process_files E now rc opts fs (process_file E now rc opts f s)) q = Some r2"
    "same_import r1 r2" by blast
  with r1(2) show ?case by (auto intro: same_import_trans)
qed

lemma process_file_imported_in:
  assumes "\<not> force opts" "imported_in s q"
  shows "imported_in (process_file E now rc opts f s) q"
proof -
  from assms(2) obtain r where r: "ledger s q = Some r" "is_imported r"
    by (auto simp: imported_in_def split: option.splits)
  from process_file_keeps_import [OF assms(1) r, of E now rc f] r(2) show ?thesis
    by (auto simp: imported_in_def same_import_imported)
qed

lemma grows_refl: "grows s s"
proof -
  have "stdout s = stdout s @ [] \<and> media s = media s @ []
      \<and> map m_id [] = imported_ids []
      \<and> (\<forall>q \<in> set (imported_paths []). \<not> imported_in s q)"
    by simp
  then show ?thesis unfolding grows_def by (rule_tac x = "[]" in exI, rule_tac x = "[]" in exI)
qed

lemma grows_trans:
  assumes "grows s s1" "grows s1 s2" "\<And>q. imported_in s q \<Longrightarrow> imported_in s1 q"
  shows "grows s s2"
proof -
  from assms(1) obtain new1 ms1 where 1: "stdout s1 = stdout s @ new1" "media s1 = media s @ ms1"
    "map m_id ms1 = imported_ids new1" "\<forall>q \<in> set (imported_paths new1). \<not> imported_in s q"
    unfolding grows_def by (elim exE conjE)
  from assms(2) obtain new2 ms2 where 2: "stdout s2 = stdout s1 @ new2" "media s2 = media s1 @ ms2"
    "map m_id ms2 = imported_ids new2" "\<forall>q \<in> set (imported_paths new2). \<not> imported_in s1 q"
    unfolding grows_def by (elim exE conjE)
  have d: "\<forall>q \<in> set (imported_paths (new1 @ new2)). \<not> imported_in s q"
    using 1(4) 2(4) assms(3) by (auto simp: imported_paths_append)
  have c: "map m_id (ms1 @ ms2) = imported_ids (new1 @ new2)"
    using 1(3) 2(3) by (simp add: imported_ids_append)
  have a: "stdout s2 = stdout s @ (new1 @ new2)"
    by (simp add: 1(1) 2(1))
  have b: "media s2 = media s @ (ms1 @ ms2)"
    by (simp add: 1(2) 2(2))
  from a b c d have "stdout s2 = stdout s @ (new1 @ new2) \<and> media s2 = media s @ (ms1 @ ms2)
      \<and> map m_id (ms1 @ ms2) = imported_ids (new1 @ new2)
      \<and> (\<forall>q \<in> set (imported_paths (new1 @ new2)). \<not> imported_in s q)"
    by (intro conjI)
  then show ?thesis
    unfolding grows_def by (rule_tac x = "new1 @ new2" in exI, rule_tac x = "ms1 @ ms2" in exI)
qed

lemma process_file_grows:
  assumes "\<not> force opts"
  shows "grows s (process_file E now rc opts f s)"
proof -
  from process_file_growth [of E now rc opts f s]
  obtain new ms where 1: "stdout (process_file E now rc opts f s) = stdout s @ new"
    "media (process_file E now rc opts f s) = media s @ ms"
    "map m_id ms = imported_ids new"
    "\<forall>q \<in> set (imported_paths new). q = f \<and> (force opts \<or> \<not> imported_in s f)"
    by (elim exE conjE)
  have "\<forall>q \<in> set (imported_paths new). \<not> imported_in s q"
    using 1(4) assms by auto
  with 1(1,2,3) have "stdout (process_file E now rc opts f s) = stdout s @ new
      \<and> media (process_file E now rc opts f s) = media s @ ms
      \<and> map m_id ms = imported_ids new
      \<and> (\<forall>q \<in> set (imported_paths new). \<not> imported_in s q)"
    by (intro conjI)
  then show ?thesis
    unfolding grows_def by (rule_tac x = new in exI, rule_tac x = ms in exI)
qed

lemma process_files_grows:
  assumes "\<not> force opts"
  shows "grows s (process_files E now rc opts fs s)"
proof (induction fs arbitrary: s)
  case Nil
  show ?case by (simp add: grows_refl)
next
  case (Cons f fs)
  have "grows s (process_files E now rc opts fs (process_file E now rc opts f s))"
    by (rule grows_trans [OF process_file_grows [OF assms] Cons.IH])
       (rule process_file_imported_in [OF assms])
  then show ?case by simp
qed

lemma isdir_rm_file: "isdir fs d \<Longrightarrow> isdir (rm_file p fs) d"
  by (auto simp: rm_file_def isdir_def isfile_def delete_conv' split: option.splits node.splits)

lemma process_file_tables:
  "users (process_file E now rc opts f s) = users s"
  "channels (process_file E now rc opts f s) = channels s"
  "categories (process_file E now rc opts f s) = categories s"
  by (auto simp: process_file_def Let_def dest!: import_file_effect split: option.splits prod.splits)

lemma process_file_isdir:
  "isdir (files s) d \<Longrightarrow> isdir (files (process_file E now rc opts f s)) d"
  by (auto simp: process_file_def Let_def isdir_rm_file dest!: import_file_effect
      split: option.splits prod.splits)

lemma process_files_tables:
  "users (process_files E now rc opts fs s) = users s
   \<and> channels (process_files E now rc opts fs s) = channels s
   \<and> categories (process_files E now rc opts fs s) = categories s"
  by (induction fs arbitrary: s) (simp_all add: process_file_tables)

lemma process_files_isdir:
  "isdir (files s) d \<Longrightarrow> isdir (files (process_files E now rc opts fs s)) d"
  by (induction fs arbitrary: s) (simp_all add: process_file_isdir)

lemma resolve_categories_cong:
  "categories s' = categories s \<Longrightarrow> resolve_categories vs s' = resolve_categories vs s"
  by (induction vs) (auto split: option.splits sum.splits)

lemma isdir_exists: "isdir fs d \<Longrightarrow> path_exists fs d"
  by (auto simp: isdir_def path_exists_def split: option.splits)

lemma process_config_Inr:
  assumes "process_config E now config opts s = Inr s'"
  shows "\<exists>path user channel cats tgs tbl.
            cfg_path config = Some path \<and> isdir (files s) path
            \<and> resolve_user config s = Inr user
            \<and> resolve_channel config user s = Inr channel
            \<and> resolve_categories (cfg_categories config) s = Inr cats
            \<and> resolve_tags (cfg_tags config) user (tags s) = (tgs, tbl)
            \<and> s' = process_files E now
                     \<lparr>r_name = (if truthy (cfg_name config) then the (cfg_name config)
                                 else str_of_path path),
                      r_extensions = normalise_extensions (cfg_extensions config),
                      r_delete_after = cfg_delete_after_import config, r_user = user,
                      r_channel = channel, r_categories = cats, r_tags = tgs,
                      r_config = config\<rparr>
                     opts
                     (iter_files (files s) path
                        (case cfg_recursive config of None \<Rightarrow> True | Some b \<Rightarrow> b))
                     (s\<lparr>tags := tbl\<rparr>)"
  using assms
  by (auto simp: process_config_def Let_def split: option.splits if_splits sum.splits prod.splits)

lemma process_config_again:
  assumes "process_config E now config opts s = Inr s'"
  shows "\<exists>rc fs tbl. process_config E now' config opts' s'
                       = Inr (process_files E now' rc opts' fs (s'\<lparr>tags := tbl\<rparr>))"
proof -
  from process_config_Inr [OF assms]
  obtain path user channel cats tgs tbl rc fs where
    p: "cfg_path config = Some path" "isdir (files s) path"
    and u: "resolve_user config s = Inr user"
    and c: "resolve_channel config user s = Inr channel"
    and k: "resolve_categories (cfg_categories config) s = Inr cats"
    and s': "s' = process_files E now rc opts fs (s\<lparr>tags := tbl\<rparr>)"
    by (elim exE conjE)
  have t: "users s' = users s" "channels s' = channels s" "categories s' = categories s"
    unfolding s' using process_files_tables [of E now rc opts fs "s\<lparr>tags := tbl\<rparr>"] by simp_all
  have d: "isdir (files s') path"
    unfolding s' by (rule process_files_isdir) (simp add: p)
  have "resolve_user config s' = resolve_user config s"
    by (simp add: resolve_user_def t)
  with u have u': "resolve_user config s' = Inr user" by simp
  have "resolve_channel config user s' = resolve_channel config user s"
    by (simp add: resolve_channel_def t)
  with c have c': "resolve_channel config user s' = Inr channel" by simp
  have k': "resolve_categories (cfg_categories config) s' = Inr cats"
    using k resolve_categories_cong [OF t(3)] by simp
  obtain tgs' tbl' where g: "resolve_tags (cfg_tags config) user (tags s') = (tgs', tbl')"
    by (cases "resolve_tags (cfg_tags config) user (tags s')")
  define rc' where "rc' =
     \<lparr>r_name = (if truthy (cfg_name config) then the (cfg_name config) else str_of_path path),
      r_extensions = normalise_extensions (cfg_extensions config),
      r_delete_after = cfg_delete_after_import config, r_user = user,
      r_channel = channel, r_categories = cats, r_tags = tgs', r_config = config\<rparr>"
  define fs' where "fs' = iter_files (files s') path
                        (case cfg_recursive config of None \<Rightarrow> True | Some b \<Rightarrow> b)"
  have "process_config E now' config opts' s'
          = Inr (process_files E now' rc' opts' fs' (s'\<lparr>tags := tbl'\<rparr>))"
    by (simp add: process_config_def p(1) d isdir_exists u' c' k' g Let_def rc'_def fs'_def)
  then show ?thesis
    by (rule_tac x = rc' in exI, rule_tac x = fs' in exI, rule_tac x = tbl' in exI)
qed

text \<open>
  What one pass records. A pass keeps the next primary key positive; every \<open>Imported\<close>
  line it prints names a path whose ledger row then holds the key of that line (lines 137
  to 141); and a regular file of the listing that can be read and saved, and passes the
  extension filter, has an imported row when the pass ends.
\<close>

lemma process_file_next_id:
  "0 < next_media_id s \<Longrightarrow> 0 < next_media_id (process_file E now rc opts f s)"
  by (auto simp: process_file_def Let_def dest!: import_file_effect split: option.splits prod.splits)

lemma process_files_next_id:
  "0 < next_media_id s \<Longrightarrow> 0 < next_media_id (process_files E now rc opts fs s)"
  by (induction fs arbitrary: s) (simp_all add: process_file_next_id)

lemma process_file_out:
  "stdout (process_file E now rc opts f s) = stdout s
   \<or> stdout (process_file E now rc opts f s) = stdout s @ [WouldImport f]
   \<or> stdout (process_file E now rc opts f s) = stdout s @ [Imported f (next_media_id s)]
     \<and> (\<exists>r. ledger (process_file E now rc opts f s) f = Some r
             \<and> media_id r = Some (next_media_id s))"
  by (auto simp: process_file_def Let_def
      dest!: import_file_effect split: option.splits prod.splits)

lemma process_file_records:
  assumes "0 < next_media_id s"
    and "stdout (process_file E now rc opts f s) = stdout s @ new"
    and "Imported p i \<in> set new"
  shows "\<exists>r. ledger (process_file E now rc opts f s) p = Some r \<and> media_id r = Some i
             \<and> is_imported r"
proof -
  from process_file_out [of E now rc opts f s]
  consider "stdout (process_file E now rc opts f s) = stdout s"
    | "stdout (process_file E now rc opts f s) = stdout s @ [WouldImport f]"
    | "stdout (process_file E now rc opts f s) = stdout s @ [Imported f (next_media_id s)]"
      "\<exists>r. ledger (process_file E now rc opts f s) f = Some r
             \<and> media_id r = Some (next_media_id s)"
    by (elim disjE conjE)
  then show ?thesis
  proof cases
    case 1
    with assms(2) have "new = []" by simp
    with assms(3) show ?thesis by simp
  next
    case 2
    with assms(2) have "new = [WouldImport f]" by simp
    with assms(3) show ?thesis by simp
  next
    case 3
    from 3(1) assms(2) have "new = [Imported f (next_media_id s)]" by simp
    with assms(3) have e: "p = f" "i = next_media_id s" by simp_all
    from 3(2) obtain r where r: "ledger (process_file E now rc opts f s) f = Some r"
      "media_id r = Some (next_media_id s)" by (elim exE conjE)
    have "ledger (process_file E now rc opts f s) p = Some r \<and> media_id r = Some i
             \<and> is_imported r"
      using r e assms(1) by (simp add: is_imported_def)
    then show ?thesis by (rule_tac x = r in exI)
  qed
qed

lemma process_files_records:
  assumes "\<not> force opts"
  shows "0 < next_media_id s \<Longrightarrow> stdout (process_files E now rc opts fs s) = stdout s @ new \<Longrightarrow>
         Imported p i \<in> set new \<Longrightarrow>
         \<exists>r. ledger (process_files E now rc opts fs s) p = Some r \<and> media_id r = Some i
              \<and> is_imported r"
proof (induction fs arbitrary: s new)
  case Nil
  then show ?case by simp
next
  case (Cons f fs)
  define sa where "sa = process_file E now rc opts f s"
  define sb where "sb = process_files E now rc opts fs sa"
  have "grows s sa" unfolding sa_def by (rule process_file_grows [OF assms])
  then obtain na where na: "stdout sa = stdout s @ na"
    unfolding grows_def by (elim exE conjE)
  have "grows sa sb" unfolding sb_def by (rule process_files_grows [OF assms])
  then obtain nb where nb: "stdout sb = stdout sa @ nb"
    unfolding grows_def by (elim exE conjE)
  have sb: "process_files E now rc opts (f # fs) s = sb" by (simp add: sb_def sa_def)
  have new: "new = na @ nb" using Cons.prems(2) unfolding sb nb na by simp
  have pos: "0 < next_media_id sa" unfolding sa_def by (rule process_file_next_id [OF Cons.prems(1)])
  from Cons.prems(3) new consider "Imported p i \<in> set na" | "Imported p i \<in> set nb" by auto
  then show ?case
  proof cases
    case 1
    from process_file_records [OF Cons.prems(1) na [unfolded sa_def] 1]
    obtain r where r: "ledger sa p = Some r" "media_id r = Some i" "is_imported r"
      unfolding sa_def by (elim exE conjE)
    from process_files_keeps_import [OF assms r(1) r(3), of E now rc fs]
    obtain r' where r': "ledger sb p = Some r'" "same_import r r'"
      unfolding sb_def by (elim exE conjE)
    have "ledger sb p = Some r' \<and> media_id r' = Some i \<and> is_imported r'"
      using r' r(2,3) by (simp add: same_import_def is_imported_def)
    then show ?thesis unfolding sb by (rule_tac x = r' in exI)
  next
    case 2
    from Cons.IH [OF pos nb [unfolded sb_def] 2] show ?thesis
      unfolding sb sb_def .
  qed
qed

lemma process_file_imports:
  assumes "map_of (files s) f = Some (RegularFile c True)" "passes_filter rc f"
    and "\<not> dry_run opts" "save_ok E f" "0 < next_media_id s"
  shows "imported_in (process_file E now rc opts f s) f"
  using assms
  by (auto simp: process_file_def passes_filter_def imported_in_def isfile_def read_file_def
      observe_path_def get_or_create_def import_file_def create_media_def is_imported_def Let_def
      split: option.splits)

lemma process_file_other_file:
  "g \<noteq> f \<Longrightarrow> map_of (files (process_file E now rc opts g s)) f = map_of (files s) f"
  by (auto simp: process_file_def Let_def rm_file_def delete_conv'
      dest!: import_file_effect split: option.splits prod.splits)

lemma process_files_imported_in:
  assumes "\<not> force opts" "imported_in s q"
  shows "imported_in (process_files E now rc opts fs s) q"
  using assms(2)
  by (induction fs arbitrary: s) (simp_all add: process_file_imported_in [OF assms(1)])

lemma process_files_imports:
  assumes "\<not> force opts" "passes_filter rc f" "\<not> dry_run opts" "save_ok E f"
  shows "f \<in> set fs \<Longrightarrow> 0 < next_media_id s \<Longrightarrow>
         imported_in s f \<or> map_of (files s) f = Some (RegularFile c True) \<Longrightarrow>
         imported_in (process_files E now rc opts fs s) f"
proof (induction fs arbitrary: s)
  case Nil
  then show ?case by simp
next
  case (Cons g fs)
  define sa where "sa = process_file E now rc opts g s"
  have pos: "0 < next_media_id sa" unfolding sa_def by (rule process_file_next_id [OF Cons.prems(2)])
  show ?case
  proof (cases "g = f")
    case True
    have "imported_in sa f"
      using Cons.prems(3)
    proof
      assume "imported_in s f"
      then show ?thesis unfolding sa_def by (rule process_file_imported_in [OF assms(1)])
    next
      assume "map_of (files s) f = Some (RegularFile c True)"
      then show ?thesis unfolding sa_def True
        by (rule process_file_imports [OF _ assms(2,3,4) Cons.prems(2)])
    qed
    then have "imported_in (process_files E now rc opts fs sa) f"
      by (rule process_files_imported_in [OF assms(1)])
    then show ?thesis by (simp add: sa_def)
  next
    case False
    with Cons.prems(1) have mem: "f \<in> set fs" by simp
    have "imported_in sa f \<or> map_of (files sa) f = Some (RegularFile c True)"
      using Cons.prems(3)
    proof
      assume "imported_in s f"
      then have "imported_in sa f" unfolding sa_def by (rule process_file_imported_in [OF assms(1)])
      then show ?thesis by simp
    next
      assume "map_of (files s) f = Some (RegularFile c True)"
      then show ?thesis unfolding sa_def by (simp add: process_file_other_file [OF False])
    qed
    from Cons.IH [OF mem pos this] show ?thesis by (simp add: sa_def)
  qed
qed

lemma process_config_imports:
  assumes "\<not> force opts" "\<not> dry_run opts" "0 < next_media_id s"
    and "process_config E now config opts s = Inr s'"
    and "cfg_path config = Some path"
    and "f \<in> set (iter_files (files s) path
                     (case cfg_recursive config of None \<Rightarrow> True | Some b \<Rightarrow> b))"
    and "read_file (files s) f \<noteq> None" "save_ok E f"
    and "normalise_extensions (cfg_extensions config) = []
         \<or> List.member (normalise_extensions (cfg_extensions config))
              (lstrip (CHR ''.'') (lower (path_suffix f)))"
  shows "imported_in s' f"
proof -
  from process_config_Inr [OF assms(4)]
  obtain path' user channel cats tgs tbl where
    p: "cfg_path config = Some path'"
    and s': "s' = process_files E now
                     \<lparr>r_name = (if truthy (cfg_name config) then the (cfg_name config)
                                 else str_of_path path'),
                      r_extensions = normalise_extensions (cfg_extensions config),
                      r_delete_after = cfg_delete_after_import config, r_user = user,
                      r_channel = channel, r_categories = cats, r_tags = tgs,
                      r_config = config\<rparr>
                     opts
                     (iter_files (files s) path'
                        (case cfg_recursive config of None \<Rightarrow> True | Some b \<Rightarrow> b))
                     (s\<lparr>tags := tbl\<rparr>)"
    by (elim exE conjE)
  from p assms(5) have pp: "path' = path" by simp
  define rc where "rc =
     \<lparr>r_name = (if truthy (cfg_name config) then the (cfg_name config) else str_of_path path),
      r_extensions = normalise_extensions (cfg_extensions config),
      r_delete_after = cfg_delete_after_import config, r_user = user,
      r_channel = channel, r_categories = cats, r_tags = tgs, r_config = config\<rparr>"
  have pf: "passes_filter rc f" using assms(9) by (simp add: passes_filter_def rc_def)
  have pos: "0 < next_media_id (s\<lparr>tags := tbl\<rparr>)" using assms(3) by simp
  from assms(7) obtain c where c: "map_of (files s) f = Some (RegularFile c True)"
    by (auto simp: read_file_def split: option.splits node.splits if_splits)
  have fl: "imported_in (s\<lparr>tags := tbl\<rparr>) f
            \<or> map_of (files (s\<lparr>tags := tbl\<rparr>)) f = Some (RegularFile c True)"
    using c by simp
  from process_files_imports [OF assms(1) pf assms(2) assms(8) assms(6) pos fl, of now]
  show ?thesis unfolding s' pp rc_def .
qed

lemmas poll_defs = process_config_def process_file_def observe_path_def get_or_create_def
  import_file_def create_media_def iter_files_def resolve_user_def resolve_channel_def
  normalise_extensions_def truthy_def path_exists_def isdir_def isfile_def read_file_def
  rm_file_def is_imported_def basename_def str_of_path_def Let_def

lemmas test_defs = test_env_def test_world_def test_config_def test_options_def

lemma first_scan:
  "process_config test_env 1 test_config test_options test_world = Inr test_world_scanned"
  by (simp add: poll_defs test_defs test_world_scanned_def)

lemma first_scan_files:
  "process_files test_env 1 test_resolved test_options
     (iter_files (files test_world) [''w''] False) test_world = test_world_scanned"
  by (simp add: poll_defs test_defs test_world_scanned_def test_resolved_def)

lemma set_null_at:
  "ledger s p = Some r \<Longrightarrow> media_id r = Some i \<Longrightarrow>
     ledger (delete_media i s) p = Some (r\<lparr>media_id := None\<rparr>)"
  by (simp add: delete_media_def set_null_def)


section \<open>The ledger upsert\<close>

text \<open>
  Claim C7. Observing a path is an upsert keyed on the source path: a path with no row
  gets one with the caller's configuration name and empty import fields; a path with a
  row keeps its import fields and has its configuration name set to the caller's; in
  both cases the row's last-seen time is the time of the observation, and no other row
  changes.
\<close>

theorem observe_path_upsert:
  assumes "observe_path now p name l = (r, created, l')"
  shows "created = (l p = None) \<and> l' p = Some r
         \<and> config_name r = name \<and> last_seen r = now
         \<and> (case l p of
               None \<Rightarrow> media_id r = None \<and> md5sum r = None \<and> imported_at r = None
             | Some r0 \<Rightarrow> media_id r = media_id r0 \<and> md5sum r = md5sum r0
                           \<and> imported_at r = imported_at r0)
         \<and> (\<forall>q. q \<noteq> p \<longrightarrow> l' q = l q)"
  using assms
  by (auto simp: observe_path_def get_or_create_def Let_def split: option.splits if_splits)

theorem observe_path_upsert_witness:
  "observe_path 9 [''w'', ''a.jpg''] ''new''
     (Map.empty([''w'', ''a.jpg''] \<mapsto>
        \<lparr>config_name = ''old'', media_id = Some 1, md5sum = Some ''d1'',
         imported_at = Some 3, last_seen = 3\<rparr>))
   = (\<lparr>config_name = ''new'', media_id = Some 1, md5sum = Some ''d1'',
       imported_at = Some 3, last_seen = 9\<rparr>, False,
      Map.empty([''w'', ''a.jpg''] \<mapsto>
        \<lparr>config_name = ''new'', media_id = Some 1, md5sum = Some ''d1'',
         imported_at = Some 3, last_seen = 9\<rparr>))
   \<and> fst (observe_path 9 [''w'', ''b.jpg''] ''new'' Map.empty)
      = \<lparr>config_name = ''new'', media_id = None, md5sum = None,
         imported_at = None, last_seen = 9\<rparr>"
  using observe_path_upsert [of 9 "[''w'', ''a.jpg'']" "''new''"
      "Map.empty([''w'', ''a.jpg''] \<mapsto>
        \<lparr>config_name = ''old'', media_id = Some 1, md5sum = Some ''d1'',
         imported_at = Some 3, last_seen = 3\<rparr>)"
      "\<lparr>config_name = ''new'', media_id = Some 1, md5sum = Some ''d1'',
         imported_at = Some 3, last_seen = 9\<rparr>" False
      "Map.empty([''w'', ''a.jpg''] \<mapsto>
        \<lparr>config_name = ''new'', media_id = Some 1, md5sum = Some ''d1'',
         imported_at = Some 3, last_seen = 9\<rparr>)"]
  by (simp add: observe_path_def get_or_create_def Let_def)

section \<open>Scanning twice\<close>

text \<open>
  Claim C1. Two runs of \<open>process_config\<close> for the same configuration, without the force
  flag, from a state whose next Media key is positive. When the first run succeeds, so
  does the second. Every Media row the first run adds is reported by an \<open>Imported\<close>
  line, and every path of such a line has a ledger row that holds the key of the line; so
  has every readable regular file of the listing that passes the extension filter and can
  be saved, unless the run is a dry run. For every path imported in the first run, and
  for every path whose ledger row is imported after it, the second run prints no
  \<open>Imported\<close> line and leaves the row's media reference as it is, while every Media row
  the second run adds is the one named by such a line. So no second Media row is created
  for that path.
\<close>

theorem poll_scan_idempotent:
  assumes "\<not> force opts" and "0 < next_media_id s0"
      and "process_config E now1 config opts s0 = Inr s1"
  shows "\<exists>new1 ms1 s2 new2 ms2.
           stdout s1 = stdout s0 @ new1 \<and> media s1 = media s0 @ ms1
         \<and> map m_id ms1 = imported_ids new1
         \<and> process_config E now2 config opts s1 = Inr s2
         \<and> stdout s2 = stdout s1 @ new2 \<and> media s2 = media s1 @ ms2
         \<and> map m_id ms2 = imported_ids new2
         \<and> (\<forall>p i. Imported p i \<in> set new1 \<longrightarrow>
               p \<notin> set (imported_paths new2)
               \<and> (\<exists>r r'. ledger s1 p = Some r \<and> media_id r = Some i \<and> is_imported r
                         \<and> ledger s2 p = Some r' \<and> media_id r' = Some i))
         \<and> (\<forall>p r. ledger s1 p = Some r \<and> is_imported r \<longrightarrow>
               p \<notin> set (imported_paths new2)
               \<and> (\<exists>r'. ledger s2 p = Some r' \<and> media_id r' = media_id r))
         \<and> (\<forall>path f. cfg_path config = Some path
                 \<and> f \<in> set (iter_files (files s0) path
                                (case cfg_recursive config of None \<Rightarrow> True | Some b \<Rightarrow> b))
                 \<and> read_file (files s0) f \<noteq> None
                 \<and> (normalise_extensions (cfg_extensions config) = []
                      \<or> List.member (normalise_extensions (cfg_extensions config))
                           (lstrip (CHR ''.'') (lower (path_suffix f))))
                 \<and> save_ok E f \<and> \<not> dry_run opts \<longrightarrow>
               (\<exists>r. ledger s1 f = Some r \<and> is_imported r))"
proof -
  from process_config_Inr [OF assms(3)]
  obtain rc1 fs1 tbl1 where s1: "s1 = process_files E now1 rc1 opts fs1 (s0\<lparr>tags := tbl1\<rparr>)"
    by (elim exE conjE)
  define t0 where "t0 = s0\<lparr>tags := tbl1\<rparr>"
  have pos: "0 < next_media_id t0" using assms(2) by (simp add: t0_def)
  have "grows t0 s1" unfolding s1 t0_def by (rule process_files_grows [OF assms(1)])
  then obtain new1 ms1 where g1: "stdout s1 = stdout t0 @ new1" "media s1 = media t0 @ ms1"
      "map m_id ms1 = imported_ids new1"
    unfolding grows_def by (elim exE conjE)
  have rec1: "\<exists>r. ledger s1 p = Some r \<and> media_id r = Some i \<and> is_imported r"
    if "Imported p i \<in> set new1" for p i
    using process_files_records [OF assms(1) pos g1(1) [unfolded s1 t0_def [symmetric]] that]
    unfolding s1 t0_def .
  from process_config_again [OF assms(3), of now2 opts]
  obtain rc fs tbl where
    s2: "process_config E now2 config opts s1
           = Inr (process_files E now2 rc opts fs (s1\<lparr>tags := tbl\<rparr>))"
    by (elim exE)
  define t where "t = s1\<lparr>tags := tbl\<rparr>"
  define s2 where "s2 = process_files E now2 rc opts fs t"
  have "grows t s2" unfolding s2_def by (rule process_files_grows [OF assms(1)])
  then obtain new2 ms2 where g: "stdout s2 = stdout t @ new2" "media s2 = media t @ ms2"
      "map m_id ms2 = imported_ids new2" "\<forall>q \<in> set (imported_paths new2). \<not> imported_in t q"
    unfolding grows_def by (elim exE conjE)
  have keep: "p \<notin> set (imported_paths new2)
              \<and> (\<exists>r'. ledger s2 p = Some r' \<and> media_id r' = media_id r)"
    if "ledger s1 p = Some r" "is_imported r" for p r
  proof -
    have lt: "ledger t p = Some r" by (simp add: t_def that(1))
    from process_files_keeps_import [OF assms(1) lt that(2), of E now2 rc fs]
    obtain r' where r': "ledger s2 p = Some r'" "same_import r r'"
      unfolding s2_def by (elim exE conjE)
    have "imported_in t p" by (simp add: imported_in_def lt that(2))
    with g(4) have "p \<notin> set (imported_paths new2)" by auto
    with r' show ?thesis by (simp add: same_import_def)
  qed
  have both: "p \<notin> set (imported_paths new2)
               \<and> (\<exists>r r'. ledger s1 p = Some r \<and> media_id r = Some i \<and> is_imported r
                         \<and> ledger s2 p = Some r' \<and> media_id r' = Some i)"
    if "Imported p i \<in> set new1" for p i
  proof -
    from rec1 [OF that] obtain r where r: "ledger s1 p = Some r" "media_id r = Some i"
        "is_imported r" by (elim exE conjE)
    from keep [OF r(1) r(3)] obtain r' where r': "p \<notin> set (imported_paths new2)"
        "ledger s2 p = Some r'" "media_id r' = media_id r" by (elim exE conjE)
    have "ledger s1 p = Some r \<and> media_id r = Some i \<and> is_imported r
                         \<and> ledger s2 p = Some r' \<and> media_id r' = Some i"
      using r r' by simp
    then have "\<exists>r r'. ledger s1 p = Some r \<and> media_id r = Some i \<and> is_imported r
                         \<and> ledger s2 p = Some r' \<and> media_id r' = Some i"
      by (rule_tac x = r in exI, rule_tac x = r' in exI)
    with r'(1) show ?thesis by simp
  qed
  have live: "\<exists>r. ledger s1 f = Some r \<and> is_imported r"
    if "cfg_path config = Some path"
       "f \<in> set (iter_files (files s0) path
                     (case cfg_recursive config of None \<Rightarrow> True | Some b \<Rightarrow> b))"
       "read_file (files s0) f \<noteq> None"
       "normalise_extensions (cfg_extensions config) = []
         \<or> List.member (normalise_extensions (cfg_extensions config))
              (lstrip (CHR ''.'') (lower (path_suffix f)))"
       "save_ok E f" "\<not> dry_run opts" for path f
    using process_config_imports [OF assms(1) that(6) assms(2) assms(3) that(1) that(2) that(3)
        that(5) that(4)]
    by (simp add: imported_in_def split: option.splits)
  have a: "stdout s1 = stdout s0 @ new1" "media s1 = media s0 @ ms1"
    using g1(1,2) by (simp_all add: t0_def)
  have b: "process_config E now2 config opts s1 = Inr s2" using s2 by (simp add: s2_def t_def)
  have c: "stdout s2 = stdout s1 @ new2" "media s2 = media s1 @ ms2"
    using g(1,2) by (simp_all add: t_def)
  have "stdout s1 = stdout s0 @ new1 \<and> media s1 = media s0 @ ms1
         \<and> map m_id ms1 = imported_ids new1
         \<and> process_config E now2 config opts s1 = Inr s2
         \<and> stdout s2 = stdout s1 @ new2 \<and> media s2 = media s1 @ ms2
         \<and> map m_id ms2 = imported_ids new2
         \<and> (\<forall>p i. Imported p i \<in> set new1 \<longrightarrow>
               p \<notin> set (imported_paths new2)
               \<and> (\<exists>r r'. ledger s1 p = Some r \<and> media_id r = Some i \<and> is_imported r
                         \<and> ledger s2 p = Some r' \<and> media_id r' = Some i))
         \<and> (\<forall>p r. ledger s1 p = Some r \<and> is_imported r \<longrightarrow>
               p \<notin> set (imported_paths new2)
               \<and> (\<exists>r'. ledger s2 p = Some r' \<and> media_id r' = media_id r))
         \<and> (\<forall>path f. cfg_path config = Some path
                 \<and> f \<in> set (iter_files (files s0) path
                                (case cfg_recursive config of None \<Rightarrow> True | Some b \<Rightarrow> b))
                 \<and> read_file (files s0) f \<noteq> None
                 \<and> (normalise_extensions (cfg_extensions config) = []
                      \<or> List.member (normalise_extensions (cfg_extensions config))
                           (lstrip (CHR ''.'') (lower (path_suffix f))))
                 \<and> save_ok E f \<and> \<not> dry_run opts \<longrightarrow>
               (\<exists>r. ledger s1 f = Some r \<and> is_imported r))"
    using a b c g1(3) g(3) both keep live by (intro conjI allI impI) simp_all
  then show ?thesis
    by (rule_tac x = new1 in exI, rule_tac x = ms1 in exI, rule_tac x = s2 in exI,
        rule_tac x = new2 in exI, rule_tac x = ms2 in exI)
qed

theorem poll_scan_idempotent_witness:
  "\<exists>s1 s2 new2 ms2 r r'.
      process_config test_env 1 test_config test_options test_world = Inr s1
    \<and> stdout s1 = [Imported [''w'', ''example.jpg''] 1] \<and> length (media s1) = 1
    \<and> ledger s1 [''w'', ''example.jpg''] = Some r \<and> media_id r = Some 1 \<and> is_imported r
    \<and> process_config test_env 2 test_config test_options s1 = Inr s2
    \<and> stdout s2 = stdout s1 @ new2 \<and> media s2 = media s1 @ ms2
    \<and> map m_id ms2 = imported_ids new2
    \<and> [''w'', ''example.jpg''] \<notin> set (imported_paths new2)
    \<and> ledger s2 [''w'', ''example.jpg''] = Some r' \<and> media_id r' = Some 1
    \<and> length (media s2) = 1
    \<and> read_file (files test_world) [''w'', ''example.jpg''] = Some ''JPEG''
    \<and> imported_in s1 [''w'', ''example.jpg'']"
proof -
  define p where "p = [''w'', ''example.jpg'']"
  have nf: "\<not> force test_options" by (simp add: test_options_def)
  have pos: "0 < next_media_id test_world" by (simp add: test_world_def)
  from poll_scan_idempotent [OF nf pos first_scan, of 2]
  obtain new1 ms1 s2 new2 ms2 where
    a: "stdout test_world_scanned = stdout test_world @ new1"
    and b: "process_config test_env 2 test_config test_options test_world_scanned = Inr s2"
    and c: "stdout s2 = stdout test_world_scanned @ new2"
           "media s2 = media test_world_scanned @ ms2" "map m_id ms2 = imported_ids new2"
    and d: "\<forall>p i. Imported p i \<in> set new1 \<longrightarrow>
               p \<notin> set (imported_paths new2)
               \<and> (\<exists>r r'. ledger test_world_scanned p = Some r \<and> media_id r = Some i
                         \<and> is_imported r \<and> ledger s2 p = Some r' \<and> media_id r' = Some i)"
    and l: "\<forall>path f. cfg_path test_config = Some path
                 \<and> f \<in> set (iter_files (files test_world) path
                                (case cfg_recursive test_config of None \<Rightarrow> True | Some b \<Rightarrow> b))
                 \<and> read_file (files test_world) f \<noteq> None
                 \<and> (normalise_extensions (cfg_extensions test_config) = []
                      \<or> List.member (normalise_extensions (cfg_extensions test_config))
                           (lstrip (CHR ''.'') (lower (path_suffix f))))
                 \<and> save_ok test_env f \<and> \<not> dry_run test_options \<longrightarrow>
               (\<exists>r. ledger test_world_scanned f = Some r \<and> is_imported r)"
    by (elim exE conjE)
  have rd: "read_file (files test_world) p = Some ''JPEG''"
    by (simp add: read_file_def test_world_def p_def)
  have "cfg_path test_config = Some [''w'']
                 \<and> p \<in> set (iter_files (files test_world) [''w'']
                                (case cfg_recursive test_config of None \<Rightarrow> True | Some b \<Rightarrow> b))
                 \<and> read_file (files test_world) p \<noteq> None
                 \<and> (normalise_extensions (cfg_extensions test_config) = []
                      \<or> List.member (normalise_extensions (cfg_extensions test_config))
                           (lstrip (CHR ''.'') (lower (path_suffix p))))
                 \<and> save_ok test_env p \<and> \<not> dry_run test_options"
    by (simp add: rd)
       (simp add: test_config_def test_world_def test_env_def test_options_def p_def
          iter_files_def normalise_extensions_def)
  with l have "\<exists>r. ledger test_world_scanned p = Some r \<and> is_imported r"
    by (elim allE) (erule mp)
  then have im: "imported_in test_world_scanned p"
    by (auto simp: imported_in_def)
  from a have new1: "new1 = [Imported p 1]"
    by (simp add: test_world_scanned_def test_world_def p_def)
  then have "Imported p 1 \<in> set new1" by simp
  with d have e: "p \<notin> set (imported_paths new2)
               \<and> (\<exists>r r'. ledger test_world_scanned p = Some r \<and> media_id r = Some 1
                         \<and> is_imported r \<and> ledger s2 p = Some r' \<and> media_id r' = Some 1)"
    by (elim allE) (erule mp)
  then obtain r r' where f: "p \<notin> set (imported_paths new2)"
      "ledger test_world_scanned p = Some r" "media_id r = Some 1" "is_imported r"
      "ledger s2 p = Some r'" "media_id r' = Some 1"
    by (elim exE conjE)
  have "\<exists>s. process_config test_env 2 test_config test_options test_world_scanned = Inr s
           \<and> length (media s) = 1"
    by (simp add: poll_defs test_defs test_world_scanned_def)
  with b have g: "length (media s2) = 1" by simp
  have h: "stdout test_world_scanned = [Imported p 1]" "length (media test_world_scanned) = 1"
    by (simp_all add: test_world_scanned_def test_world_def p_def)
  have "process_config test_env 1 test_config test_options test_world = Inr test_world_scanned
    \<and> stdout test_world_scanned = [Imported p 1] \<and> length (media test_world_scanned) = 1
    \<and> ledger test_world_scanned p = Some r \<and> media_id r = Some 1 \<and> is_imported r
    \<and> process_config test_env 2 test_config test_options test_world_scanned = Inr s2
    \<and> stdout s2 = stdout test_world_scanned @ new2 \<and> media s2 = media test_world_scanned @ ms2
    \<and> map m_id ms2 = imported_ids new2
    \<and> p \<notin> set (imported_paths new2)
    \<and> ledger s2 p = Some r' \<and> media_id r' = Some 1
    \<and> length (media s2) = 1
    \<and> read_file (files test_world) p = Some ''JPEG''
    \<and> imported_in test_world_scanned p"
    using first_scan b c f g h rd im by (intro conjI)
  then show ?thesis
    unfolding p_def
    by (rule_tac x = test_world_scanned in exI, rule_tac x = s2 in exI,
        rule_tac x = new2 in exI, rule_tac x = ms2 in exI, rule_tac x = r in exI,
        rule_tac x = r' in exI)
qed

section \<open>Writing the import into the ledger\<close>

text \<open>
  Claim C6, as amended. The command has no error for a second write. For a file that
  reaches the loop body and whose ledger row is already imported: without the force
  flag the row keeps its media reference, checksum and import time, and no Media row is
  added; with the force flag (and no dry run), when the file can be read and the Media
  object is saved, lines 137 to 141 overwrite the three fields with those of the new
  Media object, and one Media row is added.
\<close>

theorem import_write_unguarded:
  assumes "ledger s p = Some r" and "is_imported r"
      and "isfile (files s) p" and "passes_filter rc p"
  shows "(\<not> force opts \<longrightarrow>
            (\<exists>r'. ledger (process_file E now rc opts p s) p = Some r' \<and> same_import r r')
            \<and> media (process_file E now rc opts p s) = media s)
       \<and> (force opts \<and> \<not> dry_run opts \<and> save_ok E p \<and> read_file (files s) p = Some bytes \<longrightarrow>
            ledger (process_file E now rc opts p s) p
              = Some \<lparr>config_name = r_name rc, media_id = Some (next_media_id s),
                      md5sum = Some (md5_hex E bytes), imported_at = Some now,
                      last_seen = now\<rparr>
            \<and> length (media (process_file E now rc opts p s)) = Suc (length (media s)))"
proof (intro conjI impI)
  assume "\<not> force opts"
  from process_file_keeps_import [OF this assms(1,2)]
  show "\<exists>r'. ledger (process_file E now rc opts p s) p = Some r' \<and> same_import r r'" .
next
  assume "\<not> force opts"
  then show "media (process_file E now rc opts p s) = media s"
    by (rule process_file_skip) (simp add: imported_in_def assms)
next
  assume a: "force opts \<and> \<not> dry_run opts \<and> save_ok E p \<and> read_file (files s) p = Some bytes"
  obtain rec created l1 where o: "observe_path now p (r_name rc) (ledger s) = (rec, created, l1)"
    by (cases "observe_path now p (r_name rc) (ledger s)")
  have f: "\<not> (r_extensions rc \<noteq> []
              \<and> \<not> List.member (r_extensions rc) (lstrip (CHR ''.'') (lower (path_suffix p))))"
    using assms(4) by (auto simp: passes_filter_def)
  show "ledger (process_file E now rc opts p s) p
              = Some \<lparr>config_name = r_name rc, media_id = Some (next_media_id s),
                      md5sum = Some (md5_hex E bytes), imported_at = Some now,
                      last_seen = now\<rparr>"
    using a assms(3) f o
    by (auto simp: process_file_def import_file_def create_media_def Let_def)
  show "length (media (process_file E now rc opts p s)) = Suc (length (media s))"
    using a assms(3) f o
    by (auto simp: process_file_def import_file_def create_media_def Let_def)
qed

theorem import_write_unguarded_witness:
  "ledger test_world_scanned [''w'', ''example.jpg'']
     = Some \<lparr>config_name = ''/w'', media_id = Some 1, md5sum = Some ''md5:JPEG'',
             imported_at = Some 1, last_seen = 1\<rparr>
   \<and> isfile (files test_world_scanned) [''w'', ''example.jpg'']
   \<and> passes_filter test_resolved [''w'', ''example.jpg'']
   \<and> media (process_file test_env 2 test_resolved test_options [''w'', ''example.jpg'']
              test_world_scanned) = media test_world_scanned
   \<and> ledger (process_file test_env 2 test_resolved (test_options\<lparr>force := True\<rparr>)
               [''w'', ''example.jpg''] test_world_scanned) [''w'', ''example.jpg'']
     = Some \<lparr>config_name = ''/w'', media_id = Some 2, md5sum = Some ''md5:JPEG'',
             imported_at = Some 2, last_seen = 2\<rparr>"
proof -
  let ?p = "[''w'', ''example.jpg'']"
  let ?r = "\<lparr>config_name = ''/w'', media_id = Some 1, md5sum = Some ''md5:JPEG'',
             imported_at = Some 1, last_seen = 1\<rparr>"
  have h1: "ledger test_world_scanned ?p = Some ?r"
    by (simp add: test_world_scanned_def)
  have h2: "is_imported ?r" by (simp add: is_imported_def)
  have h3: "isfile (files test_world_scanned) ?p"
    by (simp add: test_world_scanned_def test_world_def isfile_def)
  have h4: "passes_filter test_resolved ?p"
    by (simp add: passes_filter_def test_resolved_def)
  have e: "save_ok test_env ?p" "read_file (files test_world_scanned) ?p = Some ''JPEG''"
      "md5_hex test_env ''JPEG'' = ''md5:JPEG''" "r_name test_resolved = ''/w''"
      "next_media_id test_world_scanned = 2"
    by (simp_all add: test_env_def test_world_scanned_def test_world_def read_file_def
        test_resolved_def)
  from import_write_unguarded [OF h1 h2 h3 h4, of test_options test_env 2 "''JPEG''"]
  have a: "media (process_file test_env 2 test_resolved test_options ?p test_world_scanned)
           = media test_world_scanned"
    by (simp add: test_options_def)
  from import_write_unguarded [OF h1 h2 h3 h4, of "test_options\<lparr>force := True\<rparr>" test_env 2
      "''JPEG''"] e
  have b: "ledger (process_file test_env 2 test_resolved (test_options\<lparr>force := True\<rparr>)
               ?p test_world_scanned) ?p
     = Some \<lparr>config_name = ''/w'', media_id = Some 2, md5sum = Some ''md5:JPEG'',
             imported_at = Some 2, last_seen = 2\<rparr>"
    by (simp add: test_options_def)
  from h1 h3 h4 a b show ?thesis by (intro conjI)
qed

theorem mark_imported_twice_counterexample:
  "process_config test_env 1 test_config test_options test_world = Inr test_world_scanned
   \<and> map_option media_id (ledger test_world_scanned [''w'', ''example.jpg'']) = Some (Some 1)
   \<and> (\<exists>s2. process_config test_env 2 test_config (test_options\<lparr>force := True\<rparr>)
               test_world_scanned = Inr s2
          \<and> ledger s2 [''w'', ''example.jpg'']
             = Some \<lparr>config_name = ''/w'', media_id = Some 2, md5sum = Some ''md5:JPEG'',
                     imported_at = Some 2, last_seen = 2\<rparr>
          \<and> map m_id (media s2) = [1, 2])"
  by (simp add: poll_defs test_defs test_world_scanned_def)

section \<open>A deleted Media object\<close>

text \<open>
  Claim C10. With primary keys that are not 0, \<open>is_imported\<close> holds exactly when the
  media reference is not null. Deleting the Media object that a ledger row points to
  nulls the reference and leaves the checksum and the import time, so the row reads as
  not imported; a later scan without the force flag then imports the file again: when
  the file passes the filter, can be read and the Media object is saved, one Media row
  is added and the ledger row points to it.
\<close>

theorem deleted_media_reopens_import:
  assumes "ledger s p = Some r" and "media_id r = Some i" and "0 < i"
  shows "(\<forall>e. media_id e \<noteq> Some 0 \<longrightarrow> is_imported e = (media_id e \<noteq> None))
       \<and> is_imported r
       \<and> ledger (delete_media i s) p = Some (r\<lparr>media_id := None\<rparr>)
       \<and> \<not> imported_in (delete_media i s) p
       \<and> (\<not> force opts \<and> \<not> dry_run opts \<and> isfile (files s) p \<and> passes_filter rc p
            \<and> save_ok E p \<and> read_file (files s) p = Some bytes \<longrightarrow>
            map_option media_id (ledger (process_file E now rc opts p (delete_media i s)) p)
              = Some (Some (next_media_id s))
            \<and> length (media (process_file E now rc opts p (delete_media i s)))
              = Suc (length (media (delete_media i s))))"
proof (intro conjI allI impI)
  fix e :: MediaAutoImportRecord
  assume "media_id e \<noteq> Some 0"
  then show "is_imported e = (media_id e \<noteq> None)"
    by (cases "media_id e") (auto simp: is_imported_def)
next
  show "is_imported r" using assms(2,3) by (simp add: is_imported_def)
next
  show l: "ledger (delete_media i s) p = Some (r\<lparr>media_id := None\<rparr>)"
    by (rule set_null_at [OF assms(1,2)])
  then show "\<not> imported_in (delete_media i s) p"
    by (simp add: imported_in_def is_imported_def)
next
  assume a: "\<not> force opts \<and> \<not> dry_run opts \<and> isfile (files s) p \<and> passes_filter rc p
            \<and> save_ok E p \<and> read_file (files s) p = Some bytes"
  have l: "ledger (delete_media i s) p = Some (r\<lparr>media_id := None\<rparr>)"
    by (rule set_null_at [OF assms(1,2)])
  have d: "files (delete_media i s) = files s" "next_media_id (delete_media i s) = next_media_id s"
    by (simp_all add: delete_media_def)
  have f: "\<not> (r_extensions rc \<noteq> []
              \<and> \<not> List.member (r_extensions rc) (lstrip (CHR ''.'') (lower (path_suffix p))))"
    using a by (auto simp: passes_filter_def)
  show "map_option media_id (ledger (process_file E now rc opts p (delete_media i s)) p)
              = Some (Some (next_media_id s))"
    using a l d f
    by (auto simp: process_file_def observe_path_def get_or_create_def import_file_def
        create_media_def is_imported_def Let_def)
  show "length (media (process_file E now rc opts p (delete_media i s)))
              = Suc (length (media (delete_media i s)))"
    using a l d f
    by (auto simp: process_file_def observe_path_def get_or_create_def import_file_def
        create_media_def is_imported_def Let_def)
qed

theorem deleted_media_reopens_import_witness:
  "ledger test_world_scanned [''w'', ''example.jpg'']
     = Some \<lparr>config_name = ''/w'', media_id = Some 1, md5sum = Some ''md5:JPEG'',
             imported_at = Some 1, last_seen = 1\<rparr>
   \<and> ledger (delete_media 1 test_world_scanned) [''w'', ''example.jpg'']
     = Some \<lparr>config_name = ''/w'', media_id = None, md5sum = Some ''md5:JPEG'',
             imported_at = Some 1, last_seen = 1\<rparr>
   \<and> \<not> imported_in (delete_media 1 test_world_scanned) [''w'', ''example.jpg'']
   \<and> media (delete_media 1 test_world_scanned) = []
   \<and> map_option media_id
         (ledger (process_file test_env 2 test_resolved test_options [''w'', ''example.jpg'']
                    (delete_media 1 test_world_scanned)) [''w'', ''example.jpg''])
       = Some (Some 2)
   \<and> length (media (process_file test_env 2 test_resolved test_options
                       [''w'', ''example.jpg''] (delete_media 1 test_world_scanned))) = 1"
proof -
  let ?p = "[''w'', ''example.jpg'']"
  let ?r = "\<lparr>config_name = ''/w'', media_id = Some 1, md5sum = Some ''md5:JPEG'',
             imported_at = Some 1, last_seen = 1\<rparr>"
  have h1: "ledger test_world_scanned ?p = Some ?r"
    by (simp add: test_world_scanned_def)
  have h2: "media_id ?r = Some 1" by simp
  have e: "\<not> force test_options" "\<not> dry_run test_options"
      "isfile (files test_world_scanned) ?p" "passes_filter test_resolved ?p"
      "save_ok test_env ?p" "read_file (files test_world_scanned) ?p = Some ''JPEG''"
      "next_media_id test_world_scanned = 2"
      "media (delete_media 1 test_world_scanned) = []"
    by (simp_all add: test_options_def test_env_def test_world_scanned_def test_world_def
        read_file_def isfile_def passes_filter_def test_resolved_def delete_media_def)
  from deleted_media_reopens_import [OF h1 h2, of test_options test_resolved test_env "''JPEG''" 2]
    h1 e
  show ?thesis by simp
qed

section \<open>A dry run\<close>

text \<open>
  Claim C3, on the fixture of the test. The option \<open>--dry-run\<close> is documented as
  reporting the files that would be imported without saving anything; the test for it
  comes after \<open>get_or_create\<close> and the save of \<open>last_seen\<close>. A dry run over the
  watch directory with no ledger row creates the row of the file (no Media row, the
  files untouched, one report line); a dry run over the scanned state under another
  configuration name rewrites the configuration name and the last-seen time of the row
  and prints no line for the file, which is already imported.
\<close>

theorem dry_run_writes_ledger:
  "ledger test_world [''w'', ''example.jpg''] = None
   \<and> (\<exists>s. process_config test_env 1 test_config (test_options\<lparr>dry_run := True\<rparr>) test_world
             = Inr s
          \<and> ledger s [''w'', ''example.jpg'']
             = Some \<lparr>config_name = ''/w'', media_id = None, md5sum = None,
                     imported_at = None, last_seen = 1\<rparr>
          \<and> media s = [] \<and> files s = files test_world
          \<and> stdout s = [WouldImport [''w'', ''example.jpg'']])
   \<and> (\<exists>s. process_config test_env 2 (test_config\<lparr>cfg_name := Some ''other''\<rparr>)
               (test_options\<lparr>dry_run := True\<rparr>) test_world_scanned = Inr s
          \<and> ledger s [''w'', ''example.jpg'']
             = Some \<lparr>config_name = ''other'', media_id = Some 1, md5sum = Some ''md5:JPEG'',
                     imported_at = Some 1, last_seen = 2\<rparr>
          \<and> stdout s = stdout test_world_scanned)"
  by (simp add: poll_defs test_defs test_world_scanned_def)

theorem dry_run_writes_ledger_witness:
  "\<exists>s. process_config test_env 1 test_config (test_options\<lparr>dry_run := True\<rparr>) test_world = Inr s
       \<and> ledger s [''w'', ''example.jpg''] \<noteq> ledger test_world [''w'', ''example.jpg'']"
proof -
  from dry_run_writes_ledger
  obtain s where s: "process_config test_env 1 test_config (test_options\<lparr>dry_run := True\<rparr>)
                       test_world = Inr s"
    "ledger s [''w'', ''example.jpg'']
             = Some \<lparr>config_name = ''/w'', media_id = None, md5sum = None,
                     imported_at = None, last_seen = 1\<rparr>"
    and n: "ledger test_world [''w'', ''example.jpg''] = None"
    by (elim exE conjE)
  from s n show ?thesis by (rule_tac x = s in exI) simp
qed

section \<open>Starting the watchers\<close>

lemma scan_pass_append:
  "scan_pass E now opts (cs1 @ cs2) s =
     (case scan_pass E now opts cs1 s of Inl e \<Rightarrow> Inl e | Inr s' \<Rightarrow> scan_pass E now opts cs2 s')"
  by (induction cs1 arbitrary: s) (auto split: sum.splits)

lemma start_no_valid_dirs:
  "valid_dirs_of (files s) (MEDIA_WATCH_DIRS cfg) = [] \<Longrightarrow> start E cfg mon s = (False, mon, s)"
  by (simp add: start_def Let_def)

lemma start_valid_dirs:
  assumes "MEDIA_WATCH_DIRS cfg \<noteq> []" "MEDIA_WATCH_USER cfg \<noteq> []"
    and "List.member (map fst (users s)) (MEDIA_WATCH_USER cfg)"
    and "valid_dirs_of (files s) (MEDIA_WATCH_DIRS cfg) \<noteq> []"
    and "(if MEDIA_WATCH_MOVE_AFTER_IMPORT cfg
          then (case MEDIA_WATCH_PROCESSED_DIR cfg of None \<Rightarrow> None
                | Some d \<Rightarrow> mkdir_p d (files s))
          else Some (files s)) = Some fs1"
  shows "\<exists>mon'. start E cfg mon s = (observers mon' \<noteq> [], mon', s\<lparr>files := fs1\<rparr>)
           \<and> observers mon'
              = observers mon
                @ filter (observer_ok E) (valid_dirs_of (files s) (MEDIA_WATCH_DIRS cfg))"
proof -
  define h where "h = new_handler (MEDIA_WATCH_USER cfg) (MEDIA_WATCH_DEBOUNCE_SECONDS cfg)
                           (MEDIA_WATCH_EXTENSIONS cfg) (MEDIA_WATCH_DEFAULT_STATE cfg)
                           (MEDIA_WATCH_MOVE_AFTER_IMPORT cfg)
                           (if MEDIA_WATCH_MOVE_AFTER_IMPORT cfg
                            then MEDIA_WATCH_PROCESSED_DIR cfg else None)"
  define obs where "obs = observers mon
                @ filter (observer_ok E) (valid_dirs_of (files s) (MEDIA_WATCH_DIRS cfg))"
  define mon' where "mon' = (if obs = [] then mon\<lparr>handlers := handlers mon @ [h], observers := obs\<rparr>
      else mon\<lparr>handlers := handlers mon @ [h], observers := obs, running := True\<rparr>)"
  have "start E cfg mon s = (obs \<noteq> [], mon', s\<lparr>files := fs1\<rparr>)"
    using assms(1-4) by (simp add: start_def Let_def assms(5) h_def obs_def mon'_def)
  moreover have "observers mon' = obs" by (simp add: mon'_def)
  ultimately have "start E cfg mon s = (observers mon' \<noteq> [], mon', s\<lparr>files := fs1\<rparr>)
           \<and> observers mon' = obs" by simp
  then show ?thesis unfolding obs_def by (rule_tac x = mon' in exI)
qed


text \<open>
  Claim C8, as amended. In the event-driven monitor a directory that is missing, is not
  a directory or cannot be read is skipped: \<open>start\<close> fails when no configured directory
  is valid, and when the directories and the user are set, the user exists and the
  processed directory (if files are moved) can be made, it starts an observer for every
  valid directory whose observer can start, failing only if none did. In the poll-scan
  command a \<open>CommandError\<close> of one configuration is re-raised by \<open>handle\<close>: the command
  ends with that error and the configurations after it are not processed.
\<close>

theorem configuration_errors:
  "(valid_dirs_of (files s) (MEDIA_WATCH_DIRS cfg) = [] \<longrightarrow> start E cfg mon s = (False, mon, s))
   \<and> (MEDIA_WATCH_DIRS cfg \<noteq> [] \<and> MEDIA_WATCH_USER cfg \<noteq> []
        \<and> List.member (map fst (users s)) (MEDIA_WATCH_USER cfg)
        \<and> valid_dirs_of (files s) (MEDIA_WATCH_DIRS cfg) \<noteq> []
        \<and> (if MEDIA_WATCH_MOVE_AFTER_IMPORT cfg
            then (case MEDIA_WATCH_PROCESSED_DIR cfg of None \<Rightarrow> None
                  | Some d \<Rightarrow> mkdir_p d (files s))
            else Some (files s)) = Some fs1 \<longrightarrow>
        (\<exists>mon'. start E cfg mon s = (observers mon' \<noteq> [], mon', s\<lparr>files := fs1\<rparr>)
           \<and> observers mon'
              = observers mon
                @ filter (observer_ok E) (valid_dirs_of (files s) (MEDIA_WATCH_DIRS cfg))))
   \<and> (scan_pass E now opts cs1 s = Inr s' \<and> process_config E now c opts s' = Inl e \<longrightarrow>
        handle E now opts (cs1 @ c # cs2) (Suc n) s = Inl e)"
proof (intro conjI impI)
  assume "valid_dirs_of (files s) (MEDIA_WATCH_DIRS cfg) = []"
  then show "start E cfg mon s = (False, mon, s)" by (rule start_no_valid_dirs)
next
  assume a: "MEDIA_WATCH_DIRS cfg \<noteq> [] \<and> MEDIA_WATCH_USER cfg \<noteq> []
        \<and> List.member (map fst (users s)) (MEDIA_WATCH_USER cfg)
        \<and> valid_dirs_of (files s) (MEDIA_WATCH_DIRS cfg) \<noteq> []
        \<and> (if MEDIA_WATCH_MOVE_AFTER_IMPORT cfg
            then (case MEDIA_WATCH_PROCESSED_DIR cfg of None \<Rightarrow> None
                  | Some d \<Rightarrow> mkdir_p d (files s))
            else Some (files s)) = Some fs1"
  show "\<exists>mon'. start E cfg mon s = (observers mon' \<noteq> [], mon', s\<lparr>files := fs1\<rparr>)
           \<and> observers mon'
              = observers mon
                @ filter (observer_ok E) (valid_dirs_of (files s) (MEDIA_WATCH_DIRS cfg))"
    by (rule start_valid_dirs) (use a in simp_all)
next
  assume a: "scan_pass E now opts cs1 s = Inr s' \<and> process_config E now c opts s' = Inl e"
  then have "scan_pass E now opts (cs1 @ c # cs2) s = Inl e"
    by (simp add: scan_pass_append)
  then show "handle E now opts (cs1 @ c # cs2) (Suc n) s = Inl e"
    by (simp add: handle_def)
qed

theorem configuration_errors_witness:
  "valid_dirs_of (files test_world) (MEDIA_WATCH_DIRS test_settings) = [[''w'']]
   \<and> (\<exists>mon'. start test_env test_settings new_monitor test_world = (True, mon', test_world)
          \<and> observers mon' = [[''w'']])
   \<and> start test_env (test_settings\<lparr>MEDIA_WATCH_DIRS := [[''missing'']]\<rparr>) new_monitor test_world
       = (False, new_monitor, test_world)
   \<and> handle test_env 1 test_options [test_config\<lparr>cfg_path := Some [''missing'']\<rparr>, test_config]
         1 test_world = Inl (WatchDirMissing [''missing''])"
proof -
  have v: "valid_dirs_of (files test_world) (MEDIA_WATCH_DIRS test_settings) = [[''w'']]"
    by (simp add: valid_dirs_of_def test_world_def test_settings_def path_exists_def isdir_def
        access_R_OK_def)
  have v0: "valid_dirs_of (files test_world)
              (MEDIA_WATCH_DIRS (test_settings\<lparr>MEDIA_WATCH_DIRS := [[''missing'']]\<rparr>)) = []"
    by (simp add: valid_dirs_of_def test_world_def path_exists_def)
  have e: "MEDIA_WATCH_DIRS test_settings \<noteq> []" "MEDIA_WATCH_USER test_settings \<noteq> []"
      "List.member (map fst (users test_world)) (MEDIA_WATCH_USER test_settings)"
      "\<not> MEDIA_WATCH_MOVE_AFTER_IMPORT test_settings"
      "observer_ok test_env [''w'']" "observers new_monitor = []"
      "test_world\<lparr>files := files test_world\<rparr> = test_world"
    by (simp_all add: test_settings_def test_world_def test_env_def new_monitor_def)
  have p: "scan_pass test_env 1 test_options [] test_world = Inr test_world"
      "process_config test_env 1 (test_config\<lparr>cfg_path := Some [''missing'']\<rparr>) test_options
         test_world = Inl (WatchDirMissing [''missing''])"
    by (simp_all add: process_config_def test_config_def test_world_def path_exists_def)
  note t = configuration_errors [of test_world _ test_env new_monitor "files test_world"
      1 test_options "[]" test_world "test_config\<lparr>cfg_path := Some [''missing'']\<rparr>"
      "WatchDirMissing [''missing'']" "[test_config]" 0]
  from t [of test_settings] v e
  obtain mon' where m: "start test_env test_settings new_monitor test_world
                          = (observers mon' \<noteq> [], mon', test_world)"
      "observers mon' = [[''w'']]"
    by auto
  have a: "\<exists>mon'. start test_env test_settings new_monitor test_world = (True, mon', test_world)
          \<and> observers mon' = [[''w'']]"
    using m by (rule_tac x = mon' in exI) simp
  have b: "start test_env (test_settings\<lparr>MEDIA_WATCH_DIRS := [[''missing'']]\<rparr>) new_monitor
             test_world = (False, new_monitor, test_world)"
    using t [of "test_settings\<lparr>MEDIA_WATCH_DIRS := [[''missing'']]\<rparr>"] v0 by simp
  have c: "handle test_env 1 test_options
             [test_config\<lparr>cfg_path := Some [''missing'']\<rparr>, test_config] 1 test_world
           = Inl (WatchDirMissing [''missing''])"
    using t [of test_settings] p by simp
  from v a b c show ?thesis by (intro conjI)
qed

theorem poll_configuration_error_counterexample:
  "handle test_env 1 test_options [test_config] 1 test_world = Inr test_world_scanned
   \<and> handle test_env 1 test_options [test_config\<lparr>cfg_path := Some [''missing'']\<rparr>, test_config]
         1 test_world = Inl (WatchDirMissing [''missing''])"
proof -
  have "process_config test_env 1 (test_config\<lparr>cfg_path := Some [''missing'']\<rparr>) test_options
         test_world = Inl (WatchDirMissing [''missing''])"
    by (simp add: process_config_def test_config_def test_world_def path_exists_def)
  moreover have "process_config test_env (Suc 0) test_config test_options test_world
                   = Inr test_world_scanned"
    using first_scan by simp
  ultimately show ?thesis
    by (simp add: handle_def test_options_def)
qed

section \<open>Moving processed files\<close>

lemma mkdir_fold_keeps:
  "map_of fs x = Some v \<Longrightarrow>
   map_of (fold (\<lambda>q f. if path_exists f q then f else f @ [(q, Directory True)]) qs fs) x = Some v"
  by (induction qs arbitrary: fs) (auto simp: path_exists_def map_add_def)

lemma mkdir_p_keeps:
  "mkdir_p d fs = Some fs1 \<Longrightarrow> map_of fs x = Some v \<Longrightarrow> map_of fs1 x = Some v"
  by (auto simp: mkdir_p_def mkdir_fold_keeps split: if_splits)

lemma splitext_length:
  "length (fst (splitext p)) + length (snd (splitext p)) = length p"
proof (cases "list_ex (\<lambda>c. c = CHR ''.'') p
              \<and> list_ex (\<lambda>c. c \<noteq> CHR ''.'') (rev (drop 1 (dropWhile (\<lambda>c. c \<noteq> CHR ''.'') (rev p))))")
  case False
  then show ?thesis by (auto simp: splitext_def Let_def)
next
  case True
  then have "CHR ''.'' \<in> set (rev p)" by (auto simp: list_ex_iff)
  then have "dropWhile (\<lambda>c. c \<noteq> CHR ''.'') (rev p) \<noteq> []" by (simp add: dropWhile_eq_Nil_conv)
  then have "length (dropWhile (\<lambda>c. c \<noteq> CHR ''.'') (rev p)) \<ge> 1"
    by (cases "dropWhile (\<lambda>c. c \<noteq> CHR ''.'') (rev p)") auto
  moreover have "length (takeWhile (\<lambda>c. c \<noteq> CHR ''.'') (rev p))
                 + length (dropWhile (\<lambda>c. c \<noteq> CHR ''.'') (rev p)) = length p"
  proof -
    have "length (takeWhile (\<lambda>c. c \<noteq> CHR ''.'') (rev p)
                  @ dropWhile (\<lambda>c. c \<noteq> CHR ''.'') (rev p)) = length (rev p)"
      by (simp only: takeWhile_dropWhile_id)
    then show ?thesis by (simp only: length_append length_rev)
  qed
  ultimately show ?thesis using True by (simp add: splitext_def Let_def)
qed

lemma target_path_of_fresh:
  "path_exists fs (td @ [basename file_path]) \<Longrightarrow>
   target_path_of E now fs td file_path \<noteq> td @ [basename file_path]"
proof
  assume e: "path_exists fs (td @ [basename file_path])"
     and "target_path_of E now fs td file_path = td @ [basename file_path]"
  then have "fst (splitext (basename file_path)) @ ''_'' @ strftime E ''%Y%m%d_%H%M%S'' now
               @ snd (splitext (basename file_path)) = basename file_path"
    by (simp add: target_path_of_def Let_def split: prod.splits)
  then have "length (fst (splitext (basename file_path)) @ ''_''
                      @ strftime E ''%Y%m%d_%H%M%S'' now
                      @ snd (splitext (basename file_path))) = length (basename file_path)"
    by simp
  with splitext_length [of "basename file_path"] show False by simp
qed

lemma shutil_move_file:
  assumes "map_of fs src = Some (RegularFile c r)" "\<not> isdir fs dst"
  shows "shutil_move src dst fs = Some (AList.update dst (RegularFile c r) (AList.delete src fs))"
  using assms by (simp add: shutil_move_def)

lemmas fs_defs = path_exists_def isdir_def isfile_def mkdir_p_def target_dir_of_def
  target_path_of_def splitext_def basename_def test_files_taken_def test_world_def
  test_handler_def new_handler_def test_env_def Let_def


text \<open>
  Claim C9. \<open>_move_processed_file\<close> sends an imported file to the subdirectory
  \<open>imported\<close> and a duplicate to the subdirectory \<open>duplicates\<close> of the processed
  directory. When the target directory can be made and the destination is not itself a
  directory, the file ends at the destination and is gone from its old path; the
  destination carries the file's own name when that name is free there, and otherwise
  the name with an underscore and the time stamp put before the extension, which differs
  from the taken name, so the file that held it stays.
\<close>

theorem move_processed_file_effect:
  assumes "h_processed_dir h = Some pd"
      and "map_of fs file_path = Some (RegularFile c r)"
      and "mkdir_p (target_dir_of pd duplicate) fs = Some fs1"
      and "dest = target_path_of E now fs1 (target_dir_of pd duplicate) file_path"
      and "\<not> isdir fs1 dest"
  shows "target_dir_of pd duplicate = pd @ [if duplicate then ''duplicates'' else ''imported'']
       \<and> dest = target_dir_of pd duplicate
                  @ [if path_exists fs1 (target_dir_of pd duplicate @ [basename file_path])
                     then fst (splitext (basename file_path)) @ ''_''
                          @ strftime E ''%Y%m%d_%H%M%S'' now
                          @ snd (splitext (basename file_path))
                     else basename file_path]
       \<and> map_of (move_processed_file E now h file_path duplicate fs) dest
           = Some (RegularFile c r)
       \<and> (dest \<noteq> file_path \<longrightarrow>
            map_of (move_processed_file E now h file_path duplicate fs) file_path = None)
       \<and> (path_exists fs1 (target_dir_of pd duplicate @ [basename file_path])
            \<and> target_dir_of pd duplicate @ [basename file_path] \<noteq> file_path \<longrightarrow>
            map_of (move_processed_file E now h file_path duplicate fs)
                   (target_dir_of pd duplicate @ [basename file_path])
            = map_of fs1 (target_dir_of pd duplicate @ [basename file_path]))"
proof -
  let ?td = "target_dir_of pd duplicate"
  have f1: "map_of fs1 file_path = Some (RegularFile c r)"
    by (rule mkdir_p_keeps [OF assms(3) assms(2)])
  have m: "move_processed_file E now h file_path duplicate fs
           = AList.update dest (RegularFile c r) (AList.delete file_path fs1)"
    using shutil_move_file [OF f1 assms(5)]
    by (simp add: move_processed_file_def assms(1,3) assms(4) [symmetric] Let_def)
  have a: "?td = pd @ [if duplicate then ''duplicates'' else ''imported'']"
    by (simp add: target_dir_of_def)
  have b: "dest = ?td @ [if path_exists fs1 (?td @ [basename file_path])
                     then fst (splitext (basename file_path)) @ ''_''
                          @ strftime E ''%Y%m%d_%H%M%S'' now
                          @ snd (splitext (basename file_path))
                     else basename file_path]"
    by (simp add: assms(4) target_path_of_def Let_def split: prod.splits)
  have c: "map_of (move_processed_file E now h file_path duplicate fs) dest
           = Some (RegularFile c r)"
    by (simp add: m update_conv')
  have d: "dest \<noteq> file_path \<longrightarrow>
            map_of (move_processed_file E now h file_path duplicate fs) file_path = None"
    by (simp add: m update_conv' delete_conv')
  have e: "path_exists fs1 (?td @ [basename file_path]) \<and> ?td @ [basename file_path] \<noteq> file_path
            \<longrightarrow> map_of (move_processed_file E now h file_path duplicate fs)
                   (?td @ [basename file_path])
            = map_of fs1 (?td @ [basename file_path])"
  proof
    assume x: "path_exists fs1 (?td @ [basename file_path])
               \<and> ?td @ [basename file_path] \<noteq> file_path"
    then have "dest \<noteq> ?td @ [basename file_path]"
      unfolding assms(4) by (intro target_path_of_fresh) simp
    with x show "map_of (move_processed_file E now h file_path duplicate fs)
                   (?td @ [basename file_path])
            = map_of fs1 (?td @ [basename file_path])"
      by (simp add: m update_conv' delete_conv')
  qed
  from a b c d e show ?thesis by (intro conjI)
qed

theorem move_processed_file_effect_witness:
  "map_of (move_processed_file test_env 0 test_handler [''w'', ''example.jpg''] False
             test_files_taken) [''done'', ''imported'', ''example_20260101_000000.jpg'']
     = Some (RegularFile ''JPEG'' True)
   \<and> map_of (move_processed_file test_env 0 test_handler [''w'', ''example.jpg''] False
               test_files_taken) [''w'', ''example.jpg''] = None
   \<and> map_of (move_processed_file test_env 0 test_handler [''w'', ''example.jpg''] False
               test_files_taken) [''done'', ''imported'', ''example.jpg'']
     = Some (RegularFile ''OLD'' True)
   \<and> map_of (move_processed_file test_env 0 test_handler [''w'', ''example.jpg''] True
               test_files_taken) [''done'', ''duplicates'', ''example.jpg'']
     = Some (RegularFile ''JPEG'' True)"
proof -
  let ?p = "[''w'', ''example.jpg'']"
  have h: "h_processed_dir test_handler = Some [''done'']"
    by (simp add: test_handler_def new_handler_def)
  have f: "map_of test_files_taken ?p = Some (RegularFile ''JPEG'' True)"
    by (simp add: test_files_taken_def test_world_def)
  have m1: "mkdir_p (target_dir_of [''done''] False) test_files_taken = Some test_files_taken"
    by (simp add: fs_defs)
  have m2: "mkdir_p (target_dir_of [''done''] True) test_files_taken
            = Some (test_files_taken @ [([''done'', ''duplicates''], Directory True)])"
    by (simp add: fs_defs)
  have d1: "[''done'', ''imported'', ''example_20260101_000000.jpg'']
            = target_path_of test_env 0 test_files_taken (target_dir_of [''done''] False) ?p"
    by (simp add: fs_defs)
  have d2: "[''done'', ''duplicates'', ''example.jpg'']
            = target_path_of test_env 0
                (test_files_taken @ [([''done'', ''duplicates''], Directory True)])
                (target_dir_of [''done''] True) ?p"
    by (simp add: fs_defs)
  have n1: "\<not> isdir test_files_taken [''done'', ''imported'', ''example_20260101_000000.jpg'']"
    by (simp add: fs_defs)
  have n2: "\<not> isdir (test_files_taken @ [([''done'', ''duplicates''], Directory True)])
               [''done'', ''duplicates'', ''example.jpg'']"
    by (simp add: fs_defs)
  have x1: "path_exists test_files_taken (target_dir_of [''done''] False @ [basename ?p])"
    by (simp add: fs_defs)
  have x2: "target_dir_of [''done''] False @ [basename ?p] = [''done'', ''imported'', ''example.jpg'']"
    by (simp add: fs_defs)
  have x3: "map_of test_files_taken [''done'', ''imported'', ''example.jpg'']
         = Some (RegularFile ''OLD'' True)"
    by (simp add: fs_defs)
  note t = move_processed_file_effect [OF h f m1 d1 n1]
  note a = t [THEN conjunct2, THEN conjunct2, THEN conjunct1]
  have "[''done'', ''imported'', ''example_20260101_000000.jpg''] \<noteq> ?p" by simp
  with t [THEN conjunct2, THEN conjunct2, THEN conjunct2, THEN conjunct1]
  have b: "map_of (move_processed_file test_env 0 test_handler ?p False test_files_taken) ?p
           = None" by (rule mp)
  have "path_exists test_files_taken (target_dir_of [''done''] False @ [basename ?p])
        \<and> target_dir_of [''done''] False @ [basename ?p] \<noteq> ?p"
    using x1 by (simp add: x2)
  with t [THEN conjunct2, THEN conjunct2, THEN conjunct2, THEN conjunct2]
  have "map_of (move_processed_file test_env 0 test_handler ?p False test_files_taken)
          (target_dir_of [''done''] False @ [basename ?p])
        = map_of test_files_taken (target_dir_of [''done''] False @ [basename ?p])"
    by (rule mp)
  then have c: "map_of (move_processed_file test_env 0 test_handler ?p False test_files_taken)
             [''done'', ''imported'', ''example.jpg''] = Some (RegularFile ''OLD'' True)"
    by (simp only: x2 x3)
  note t2 = move_processed_file_effect [OF h f m2 d2 n2]
  note d = t2 [THEN conjunct2, THEN conjunct2, THEN conjunct1]
  from a b c d show ?thesis by (intro conjI)
qed

section \<open>Importing one file in the event-driven handler\<close>


lemma import_media_file_rejects:
  assumes "map_of (files s) p = Some (RegularFile c r)"
  shows "length c = 0 \<Longrightarrow> import_media_file E now um h p s = (EmptyFile, s)"
    and "upload_max_size um < length c \<Longrightarrow> import_media_file E now um h p s = (TooLarge, s)"
  using assms
  by (auto simp: import_media_file_def path_exists_def isfile_def getsize_def Let_def)

lemma import_media_file_imports:
  assumes "map_of (files s) p = Some (RegularFile c True)"
    and "0 < length c" "length c \<le> upload_max_size um" "md5_hex E c \<noteq> []"
    and "find (\<lambda>m. m_md5sum m = Some (md5_hex E c)) (media s) = None"
    and "save_ok E p"
  shows "import_media_file E now um h p s
           = (ImportedMedia (next_media_id s),
              s\<lparr>media := media s @ [(handler_media E now h p (md5_hex E c))
                                        \<lparr>m_id := next_media_id s\<rparr>],
                next_media_id := Suc (next_media_id s),
                files := (if h_move_after_import h \<and> h_processed_dir h \<noteq> None
                          then move_processed_file E now h p False (files s) else files s)\<rparr>)"
  using assms
  by (auto simp: import_media_file_def path_exists_def isfile_def getsize_def Let_def
      calculate_md5_def read_file_def create_media_def handler_media_def)


lemma process_file_imports_any_size:
  assumes "map_of (files s) p = Some (RegularFile c True)" "passes_filter rc p"
    and "\<not> imported_in s p" "\<not> dry_run opts" "save_ok E p"
  shows "media (process_file E now rc opts p s)
           = media s @ [\<lparr>m_id = next_media_id s, m_user = r_user rc, m_title = None,
                         m_description = (if truthy (cfg_description (r_config rc))
                                          then cfg_description (r_config rc) else None),
                         m_md5sum = Some (md5_hex E c),
                         m_state = (if truthy (cfg_state (r_config rc))
                                    then cfg_state (r_config rc) else None),
                         m_file = basename p, m_channel = r_channel rc,
                         m_categories = r_categories rc, m_tags = r_tags rc,
                         m_allow_download = cfg_allow_download (r_config rc),
                         m_is_reviewed = cfg_is_reviewed (r_config rc)\<rparr>]"
  using assms
  by (auto simp: process_file_def passes_filter_def imported_in_def isfile_def read_file_def
      observe_path_def get_or_create_def import_file_def create_media_def is_imported_def Let_def
      split: option.splits)



text \<open>
  Claim C4, as amended. In the event-driven handler a regular file of no bytes is
  skipped as empty and a file larger than the ceiling is skipped as too large, both
  without changing anything; a file of at least one byte and at most the ceiling, so
  also one exactly at the ceiling, is imported when it can be read, its digest is not
  that of a Media row and the Media object is saved. The poll-scan command tests no
  size: a readable file that passes the extension filter and is not yet imported becomes
  a Media row whatever its length.
\<close>

theorem size_boundary:
  assumes "map_of (files s) p = Some (RegularFile c r)"
  shows "(length c = 0 \<longrightarrow> import_media_file E now um h p s = (EmptyFile, s))
       \<and> (upload_max_size um < length c \<longrightarrow> import_media_file E now um h p s = (TooLarge, s))
       \<and> (0 < length c \<and> length c \<le> upload_max_size um \<and> r \<and> md5_hex E c \<noteq> []
            \<and> find (\<lambda>m. m_md5sum m = Some (md5_hex E c)) (media s) = None \<and> save_ok E p \<longrightarrow>
            fst (import_media_file E now um h p s) = ImportedMedia (next_media_id s)
            \<and> media (snd (import_media_file E now um h p s))
                = media s @ [(handler_media E now h p (md5_hex E c))\<lparr>m_id := next_media_id s\<rparr>])
       \<and> (r \<and> passes_filter rc p \<and> \<not> imported_in s p \<and> \<not> dry_run opts \<and> save_ok E p \<longrightarrow>
            length (media (process_file E now' rc opts p s)) = Suc (length (media s)))"
proof (intro conjI impI)
  assume "length c = 0"
  then show "import_media_file E now um h p s = (EmptyFile, s)"
    by (rule import_media_file_rejects(1) [OF assms])
next
  assume "upload_max_size um < length c"
  then show "import_media_file E now um h p s = (TooLarge, s)"
    by (rule import_media_file_rejects(2) [OF assms])
next
  assume a: "0 < length c \<and> length c \<le> upload_max_size um \<and> r \<and> md5_hex E c \<noteq> []
            \<and> find (\<lambda>m. m_md5sum m = Some (md5_hex E c)) (media s) = None \<and> save_ok E p"
  with assms have f: "map_of (files s) p = Some (RegularFile c True)" by simp
  note i = import_media_file_imports [OF f, of um E now h]
  show "fst (import_media_file E now um h p s) = ImportedMedia (next_media_id s)"
    using a by (simp add: i)
  show "media (snd (import_media_file E now um h p s))
          = media s @ [(handler_media E now h p (md5_hex E c))\<lparr>m_id := next_media_id s\<rparr>]"
    using a by (simp add: i)
next
  assume a: "r \<and> passes_filter rc p \<and> \<not> imported_in s p \<and> \<not> dry_run opts \<and> save_ok E p"
  with assms have f: "map_of (files s) p = Some (RegularFile c True)" by simp
  show "length (media (process_file E now' rc opts p s)) = Suc (length (media s))"
    using a by (simp add: process_file_imports_any_size [OF f])
qed

theorem size_boundary_witness:
  "import_media_file test_env 0 (Some 4) test_handler [''w'', ''empty.jpg''] test_world_sizes
     = (EmptyFile, test_world_sizes)
   \<and> import_media_file test_env 0 (Some 4) test_handler [''w'', ''five.jpg''] test_world_sizes
     = (TooLarge, test_world_sizes)
   \<and> fst (import_media_file test_env 0 (Some 4) test_handler [''w'', ''four.jpg'']
             test_world_sizes) = ImportedMedia 1
   \<and> length (media (process_file test_env 1 test_resolved test_options [''w'', ''empty.jpg'']
                       test_world_sizes)) = 1"
proof -
  have f: "map_of (files test_world_sizes) [''w'', ''empty.jpg''] = Some (RegularFile [] True)"
      "map_of (files test_world_sizes) [''w'', ''four.jpg''] = Some (RegularFile ''abcd'' True)"
      "map_of (files test_world_sizes) [''w'', ''five.jpg''] = Some (RegularFile ''abcde'' True)"
    by (simp_all add: test_world_sizes_def)
  have e: "upload_max_size (Some 4) = 4" "md5_hex test_env ''abcd'' = ''md5:abcd''"
      "media test_world_sizes = []" "next_media_id test_world_sizes = 1"
      "save_ok test_env [''w'', ''four.jpg'']" "save_ok test_env [''w'', ''empty.jpg'']"
      "passes_filter test_resolved [''w'', ''empty.jpg'']"
      "\<not> imported_in test_world_sizes [''w'', ''empty.jpg'']" "\<not> dry_run test_options"
    by (simp_all add: upload_max_size_def test_env_def test_world_sizes_def test_world_def
        passes_filter_def test_resolved_def imported_in_def test_options_def)
  note t1 = size_boundary [OF f(1), of test_env 0 "Some 4" test_handler test_resolved test_options 1]
  note t2 = size_boundary [OF f(2), of test_env 0 "Some 4" test_handler test_resolved test_options 1]
  note t3 = size_boundary [OF f(3), of test_env 0 "Some 4" test_handler test_resolved test_options 1]
  have a: "import_media_file test_env 0 (Some 4) test_handler [''w'', ''empty.jpg'']
             test_world_sizes = (EmptyFile, test_world_sizes)"
    using t1 [THEN conjunct1] by simp
  have b: "import_media_file test_env 0 (Some 4) test_handler [''w'', ''five.jpg'']
             test_world_sizes = (TooLarge, test_world_sizes)"
    using t3 [THEN conjunct2, THEN conjunct1] e(1) by simp
  have c: "fst (import_media_file test_env 0 (Some 4) test_handler [''w'', ''four.jpg'']
             test_world_sizes) = ImportedMedia 1"
    using t2 [THEN conjunct2, THEN conjunct2, THEN conjunct1] e by simp
  have d: "length (media (process_file test_env 1 test_resolved test_options
             [''w'', ''empty.jpg''] test_world_sizes)) = 1"
    using t1 [THEN conjunct2, THEN conjunct2, THEN conjunct2] e by simp
  from a b c d show ?thesis by (intro conjI)
qed

theorem poll_imports_empty_file_counterexample:
  "getsize (files test_world_sizes) [''w'', ''empty.jpg''] = 0
   \<and> (\<exists>s. process_config test_env 1 test_config test_options test_world_sizes = Inr s
          \<and> map m_file (media s) = [''empty.jpg'', ''four.jpg'', ''five.jpg'']
          \<and> stdout s = [Imported [''w'', ''empty.jpg''] 1, Imported [''w'', ''four.jpg''] 2,
                         Imported [''w'', ''five.jpg''] 3]
          \<and> map_option media_id (ledger s [''w'', ''empty.jpg'']) = Some (Some 1))"
  by (simp add: poll_defs test_defs test_world_sizes_def getsize_def)




section \<open>The debouncer\<close>

lemma drain_eq:
  "drain h c items pend =
     (map fst (filter (ready h c) items),
      filter (\<lambda>kv. fst kv \<notin> set (map fst (filter (ready h c) items))) pend)"
proof (induction items arbitrary: pend)
  case Nil
  then show ?case by simp
next
  case (Cons kv items)
  obtain q t where kv: "kv = (q, t)" by (cases kv)
  show ?case
    by (auto simp: kv Cons.IH ready_def AList.delete_eq case_prod_unfold intro!: filter_cong)
qed

lemma filter_ready_distinct:
  "distinct (map fst pend) \<Longrightarrow>
   filter (\<lambda>kv. fst kv \<notin> set (map fst (filter P pend))) pend = filter (\<lambda>kv. \<not> P kv) pend"
proof (rule filter_cong [OF refl])
  fix kv assume d: "distinct (map fst pend)" and m: "kv \<in> set pend"
  show "(fst kv \<notin> set (map fst (filter P pend))) = (\<not> P kv)"
  proof
    assume "fst kv \<notin> set (map fst (filter P pend))"
    with m show "\<not> P kv" by force
  next
    assume n: "\<not> P kv"
    show "fst kv \<notin> set (map fst (filter P pend))"
    proof
      assume "fst kv \<in> set (map fst (filter P pend))"
      then obtain kv' where k: "kv' \<in> set pend" "P kv'" "fst kv' = fst kv" by auto
      from d k(1) m k(3) have "kv' = kv" by (metis eq_key_imp_eq_value prod.collapse)
      with k(2) n show False by simp
    qed
  qed
qed

lemma process_pending_files_eq:
  "distinct (map fst pend) \<Longrightarrow>
   process_pending_files h c pend =
     (map fst (filter (ready h c) pend), filter (\<lambda>kv. \<not> ready h c kv) pend)"
  using filter_ready_distinct [of pend "ready h c"]
  by (simp only: process_pending_files_def drain_eq)

lemma emitted_for_path:
  "distinct (map fst pend) \<Longrightarrow>
   filter (\<lambda>n. fst n = p) (map (\<lambda>q. (q, c)) (map fst (filter P pend)))
     = (case map_of pend p of Some t \<Rightarrow> if P (p, t) then [(p, c)] else [] | None \<Rightarrow> [])"
proof (induction pend)
  case Nil
  then show ?case by simp
next
  case (Cons kv pend)
  obtain q t where kv: "kv = (q, t)" by (cases kv)
  from Cons.prems have d: "distinct (map fst pend)" and n: "q \<notin> fst ` set pend"
    by (simp_all add: kv)
  show ?case
  proof (cases "q = p")
    case True
    with n have "map_of pend p = None" by (simp add: map_of_eq_None_iff)
    with Cons.IH [OF d] True show ?thesis by (simp add: kv)
  next
    case False
    with Cons.IH [OF d] show ?thesis by (simp add: kv)
  qed
qed

lemma kept_for_path:
  "distinct (map fst pend) \<Longrightarrow>
   map_of (filter Q pend) p
     = (case map_of pend p of Some t \<Rightarrow> if Q (p, t) then Some t else None | None \<Rightarrow> None)"
proof (induction pend)
  case Nil
  then show ?case by simp
next
  case (Cons kv pend)
  obtain q t where kv: "kv = (q, t)" by (cases kv)
  from Cons.prems have d: "distinct (map fst pend)" and n: "q \<notin> fst ` set pend"
    by (simp_all add: kv)
  show ?case
  proof (cases "q = p")
    case True
    with n have "map_of pend p = None" by (simp add: map_of_eq_None_iff)
    with Cons.IH [OF d] True show ?thesis by (simp add: kv)
  next
    case False
    with Cons.IH [OF d] show ?thesis by (simp add: kv)
  qed
qed

lemma round_for_path:
  assumes "distinct (map fst pend)"
  shows "filter (\<lambda>n. fst n = p) (map (\<lambda>q. (q, c)) (fst (process_pending_files h c pend)))
           = (case map_of pend p of
                Some t \<Rightarrow> if h_debounce_seconds h \<le> c - t then [(p, c)] else []
              | None \<Rightarrow> [])"
    and "map_of (snd (process_pending_files h c pend)) p
           = (case map_of pend p of
                Some t \<Rightarrow> if h_debounce_seconds h \<le> c - t then None else Some t
              | None \<Rightarrow> None)"
    and "distinct (map fst (snd (process_pending_files h c pend)))"
proof -
  note e = process_pending_files_eq [OF assms, of h c]
  show "filter (\<lambda>n. fst n = p) (map (\<lambda>q. (q, c)) (fst (process_pending_files h c pend)))
           = (case map_of pend p of
                Some t \<Rightarrow> if h_debounce_seconds h \<le> c - t then [(p, c)] else []
              | None \<Rightarrow> [])"
    using emitted_for_path [OF assms, of p c "ready h c"]
    by (simp add: e ready_def split: option.splits)
  show "map_of (snd (process_pending_files h c pend)) p
           = (case map_of pend p of
                Some t \<Rightarrow> if h_debounce_seconds h \<le> c - t then None else Some t
              | None \<Rightarrow> None)"
    using kept_for_path [OF assms, of "\<lambda>kv. \<not> ready h c kv" p]
    by (simp add: e ready_def split: option.splits)
  show "distinct (map fst (snd (process_pending_files h c pend)))"
    by (simp add: e distinct_map_filter assms)
qed

lemma event_for_path:
  assumes "should_process_file h p"
  shows "map_of (on_created h (FsEvent False p) t pend) p = Some t"
    and "map_of (on_modified h (FsEvent False p) t pend) p = Some t"
  using assms by (simp_all add: on_created_def on_modified_def update_conv')

lemma event_elsewhere:
  assumes "is_directory event \<or> src_path event \<noteq> p"
  shows "map_of (on_created h event t pend) p = map_of pend p"
    and "map_of (on_modified h event t pend) p = map_of pend p"
  using assms by (auto simp: on_created_def on_modified_def update_conv')

lemma event_distinct:
  assumes "distinct (map fst pend)"
  shows "distinct (map fst (on_created h event t pend))"
    and "distinct (map fst (on_modified h event t pend))"
  using assms by (simp_all add: on_created_def on_modified_def distinct_update)

lemma run_quiet:
  assumes "event_times p as = []" "distinct (map fst pend)"
  shows "filter (\<lambda>n. fst n = p) (run h as pend)
           = (case map_of pend p of
                None \<Rightarrow> []
              | Some t \<Rightarrow>
                  (case find (\<lambda>c. h_debounce_seconds h \<le> c - t) (tick_times as) of
                     None \<Rightarrow> []
                   | Some c \<Rightarrow> [(p, c)]))"
  using assms
proof (induction as arbitrary: pend)
  case Nil
  then show ?case by (simp split: option.splits)
next
  case (Cons a as)
  show ?case
  proof (cases a)
    case (Created event t)
    with Cons.prems have e: "is_directory event \<or> src_path event \<noteq> p" "event_times p as = []"
      by (auto split: if_splits)
    from Cons.IH [OF e(2) event_distinct(1) [OF Cons.prems(2)], of h event t]
    show ?thesis unfolding Created by (simp add: event_elsewhere(1) [OF e(1)] split: option.splits)
  next
    case (Modified event t)
    with Cons.prems have e: "is_directory event \<or> src_path event \<noteq> p" "event_times p as = []"
      by (auto split: if_splits)
    from Cons.IH [OF e(2) event_distinct(2) [OF Cons.prems(2)], of h event t]
    show ?thesis unfolding Modified by (simp add: event_elsewhere(2) [OF e(1)] split: option.splits)
  next
    case (Tick c)
    with Cons.prems have e: "event_times p as = []" by simp
    obtain ps pend' where pp: "process_pending_files h c pend = (ps, pend')"
      by (cases "process_pending_files h c pend")
    from round_for_path(1) [OF Cons.prems(2), where p = p and c = c and h = h] pp
    have r1: "filter (\<lambda>n. fst n = p) (map (\<lambda>q. (q, c)) ps)
           = (case map_of pend p of
                Some t \<Rightarrow> if h_debounce_seconds h \<le> c - t then [(p, c)] else []
              | None \<Rightarrow> [])" by simp
    from round_for_path(2) [OF Cons.prems(2), where p = p and c = c and h = h] pp
    have r2: "map_of pend' p
           = (case map_of pend p of
                Some t \<Rightarrow> if h_debounce_seconds h \<le> c - t then None else Some t
              | None \<Rightarrow> None)" by simp
    from round_for_path(3) [OF Cons.prems(2), where c = c and h = h] pp
    have r3: "distinct (map fst pend')" by simp
    from Cons.IH [OF e r3]
    show ?thesis unfolding Tick by (simp add: pp r1 r2 split: option.splits)
  qed
qed

lemma gaps_below_tl: "gaps_below w (a # ts) \<Longrightarrow> gaps_below w ts"
  by (cases ts) simp_all

lemma gaps_below_hd: "gaps_below w (a # ts) \<Longrightarrow> ts \<noteq> [] \<Longrightarrow> hd ts - a < w"
  by (cases ts) simp_all

lemma list_ex_find: "list_ex P xs \<Longrightarrow> \<exists>c. find P xs = Some c \<and> P c"
  by (induction xs) auto

lemma path_event:
  "\<not> is_directory event \<Longrightarrow> src_path event = p \<Longrightarrow> event = FsEvent False p"
  by (cases event) simp

lemma run_burst_event:
  assumes sp: "should_process_file h p"
    and d1: "distinct (map fst pend1)" and m1: "map_of pend1 p = Some t"
    and IH: "\<And>pend. distinct (map fst pend) \<Longrightarrow> event_times p as \<noteq> [] \<Longrightarrow>
               gaps_below (h_debounce_seconds h)
                 (case map_of pend p of None \<Rightarrow> event_times p as
                  | Some t0 \<Rightarrow> t0 # event_times p as) \<Longrightarrow>
               clock_ok p as \<Longrightarrow>
               list_ex (\<lambda>c. h_debounce_seconds h \<le> c - last (event_times p as))
                 (tick_times (after_last_event p as)) \<Longrightarrow>
               \<exists>c. filter (\<lambda>n. fst n = p) (run h as pend) = [(p, c)]
                   \<and> h_debounce_seconds h \<le> c - last (event_times p as)"
    and g: "gaps_below (h_debounce_seconds h) (t # event_times p as)"
    and ck: "clock_ok p as"
    and ex: "list_ex (\<lambda>c. h_debounce_seconds h \<le> c - last (t # event_times p as))
               (tick_times (if event_times p as \<noteq> [] then after_last_event p as else as))"
  shows "\<exists>c. filter (\<lambda>n. fst n = p) (run h as pend1) = [(p, c)]
             \<and> h_debounce_seconds h \<le> c - last (t # event_times p as)"
proof (cases "event_times p as = []")
  case True
  from ex True have "list_ex (\<lambda>c. h_debounce_seconds h \<le> c - t) (tick_times as)" by simp
  from list_ex_find [OF this]
  obtain c where c: "find (\<lambda>c. h_debounce_seconds h \<le> c - t) (tick_times as) = Some c"
      "h_debounce_seconds h \<le> c - t" by (elim exE conjE)
  have "filter (\<lambda>n. fst n = p) (run h as pend1) = [(p, c)]"
    by (simp add: run_quiet [OF True d1] m1 c(1))
  with c(2) True show ?thesis by (rule_tac x = c in exI) simp
next
  case False
  have g': "gaps_below (h_debounce_seconds h)
              (case map_of pend1 p of None \<Rightarrow> event_times p as
               | Some t0 \<Rightarrow> t0 # event_times p as)"
    using g by (simp add: m1)
  from ex False
  have ex': "list_ex (\<lambda>c. h_debounce_seconds h \<le> c - last (event_times p as))
               (tick_times (after_last_event p as))" by simp
  from IH [OF d1 False g' ck ex'] False show ?thesis by simp
qed

lemma run_burst:
  assumes sp: "should_process_file h p"
  shows "distinct (map fst pend) \<Longrightarrow> event_times p as \<noteq> [] \<Longrightarrow>
         gaps_below (h_debounce_seconds h)
           (case map_of pend p of None \<Rightarrow> event_times p as
            | Some t0 \<Rightarrow> t0 # event_times p as) \<Longrightarrow>
         clock_ok p as \<Longrightarrow>
         list_ex (\<lambda>c. h_debounce_seconds h \<le> c - last (event_times p as))
           (tick_times (after_last_event p as)) \<Longrightarrow>
         \<exists>c. filter (\<lambda>n. fst n = p) (run h as pend) = [(p, c)]
             \<and> h_debounce_seconds h \<le> c - last (event_times p as)"
proof (induction as arbitrary: pend)
  case Nil
  then show ?case by simp
next
  case (Cons a as)
  note d = Cons.prems(1) and ne = Cons.prems(2) and g = Cons.prems(3)
    and ck = Cons.prems(4) and ex = Cons.prems(5)
  show ?case
  proof (cases a)
    case (Created event t)
    show ?thesis
    proof (cases "\<not> is_directory event \<and> src_path event = p")
      case True
      then have ev: "event = FsEvent False p" by (simp add: path_event)
      have et: "event_times p (a # as) = t # event_times p as"
        by (simp add: Created True)
      have g1: "gaps_below (h_debounce_seconds h) (t # event_times p as)"
        using g et by (auto split: option.splits dest: gaps_below_tl)
      have ck1: "clock_ok p as" using ck by (simp add: Created)
      have s1: "event_times p [a] \<noteq> []" by (simp add: Created True)
      have al1: "after_last_event p (a # as)
                 = (if event_times p as \<noteq> [] then after_last_event p as else as)"
        by (simp add: s1)
      have ex1: "list_ex (\<lambda>c. h_debounce_seconds h \<le> c - last (t # event_times p as))
               (tick_times (if event_times p as \<noteq> [] then after_last_event p as else as))"
        using ex by (simp only: al1 et)
      from run_burst_event [OF sp event_distinct(1) [OF d] event_for_path(1) [OF sp]
          Cons.IH g1 ck1 ex1]
      show ?thesis unfolding et by (simp add: Created ev)
    next
      case False
      then have el: "is_directory event \<or> src_path event \<noteq> p" by auto
      have et: "event_times p (a # as) = event_times p as"
        using False by (auto simp: Created)
      have al: "after_last_event p (a # as) = after_last_event p as"
        using ne et False by (auto simp: Created)
      have "\<exists>c. filter (\<lambda>n. fst n = p) (run h as (on_created h event t pend)) = [(p, c)]
             \<and> h_debounce_seconds h \<le> c - last (event_times p as)"
      proof (rule Cons.IH)
        show "distinct (map fst (on_created h event t pend))" by (rule event_distinct(1) [OF d])
        show "event_times p as \<noteq> []" using ne et by simp
        show "gaps_below (h_debounce_seconds h)
           (case map_of (on_created h event t pend) p of None \<Rightarrow> event_times p as
            | Some t0 \<Rightarrow> t0 # event_times p as)"
          using g by (simp add: event_elsewhere(1) [OF el] et split: option.splits)
        show "clock_ok p as" using ck by (simp add: Created)
        show "list_ex (\<lambda>c. h_debounce_seconds h \<le> c - last (event_times p as))
           (tick_times (after_last_event p as))"
          using ex by (simp only: al et)
      qed
      then show ?thesis unfolding et by (simp add: Created)
    qed
  next
    case (Modified event t)
    show ?thesis
    proof (cases "\<not> is_directory event \<and> src_path event = p")
      case True
      then have ev: "event = FsEvent False p" by (simp add: path_event)
      have et: "event_times p (a # as) = t # event_times p as"
        by (simp add: Modified True)
      have g1: "gaps_below (h_debounce_seconds h) (t # event_times p as)"
        using g et by (auto split: option.splits dest: gaps_below_tl)
      have ck1: "clock_ok p as" using ck by (simp add: Modified)
      have s1: "event_times p [a] \<noteq> []" by (simp add: Modified True)
      have al1: "after_last_event p (a # as)
                 = (if event_times p as \<noteq> [] then after_last_event p as else as)"
        by (simp add: s1)
      have ex1: "list_ex (\<lambda>c. h_debounce_seconds h \<le> c - last (t # event_times p as))
               (tick_times (if event_times p as \<noteq> [] then after_last_event p as else as))"
        using ex by (simp only: al1 et)
      from run_burst_event [OF sp event_distinct(2) [OF d] event_for_path(2) [OF sp]
          Cons.IH g1 ck1 ex1]
      show ?thesis unfolding et by (simp add: Modified ev)
    next
      case False
      then have el: "is_directory event \<or> src_path event \<noteq> p" by auto
      have et: "event_times p (a # as) = event_times p as"
        using False by (auto simp: Modified)
      have al: "after_last_event p (a # as) = after_last_event p as"
        using ne et False by (auto simp: Modified)
      have "\<exists>c. filter (\<lambda>n. fst n = p) (run h as (on_modified h event t pend)) = [(p, c)]
             \<and> h_debounce_seconds h \<le> c - last (event_times p as)"
      proof (rule Cons.IH)
        show "distinct (map fst (on_modified h event t pend))" by (rule event_distinct(2) [OF d])
        show "event_times p as \<noteq> []" using ne et by simp
        show "gaps_below (h_debounce_seconds h)
           (case map_of (on_modified h event t pend) p of None \<Rightarrow> event_times p as
            | Some t0 \<Rightarrow> t0 # event_times p as)"
          using g by (simp add: event_elsewhere(2) [OF el] et split: option.splits)
        show "clock_ok p as" using ck by (simp add: Modified)
        show "list_ex (\<lambda>c. h_debounce_seconds h \<le> c - last (event_times p as))
           (tick_times (after_last_event p as))"
          using ex by (simp only: al et)
      qed
      then show ?thesis unfolding et by (simp add: Modified)
    qed
  next
    case (Tick c)
    have et: "event_times p (a # as) = event_times p as" by (simp add: Tick)
    have ne': "event_times p as \<noteq> []" using ne et by simp
    have al: "after_last_event p (a # as) = after_last_event p as"
      using ne' by (simp add: Tick)
    have ck1: "clock_ok p as" and le: "list_all (\<lambda>t. c \<le> t) (event_times p as)"
      using ck by (simp_all add: Tick)
    from le ne' have c1: "c \<le> hd (event_times p as)"
      by (cases "event_times p as") simp_all
    have young: "\<not> h_debounce_seconds h \<le> c - t0" if "map_of pend p = Some t0" for t0
    proof -
      from g that et have "gaps_below (h_debounce_seconds h) (t0 # event_times p as)" by simp
      from gaps_below_hd [OF this ne'] c1 show ?thesis by simp
    qed
    obtain ps pend' where pp: "process_pending_files h c pend = (ps, pend')"
      by (cases "process_pending_files h c pend")
    from round_for_path(1) [OF d, where p = p and c = c and h = h] pp young
    have r1: "filter (\<lambda>n. fst n = p) (map (\<lambda>q. (q, c)) ps) = []"
      by (simp split: option.splits)
    from round_for_path(2) [OF d, where p = p and c = c and h = h] pp young
    have r2: "map_of pend' p = map_of pend p"
      by (simp split: option.splits)
    from round_for_path(3) [OF d, where c = c and h = h] pp
    have r3: "distinct (map fst pend')" by simp
    have "\<exists>c. filter (\<lambda>n. fst n = p) (run h as pend') = [(p, c)]
             \<and> h_debounce_seconds h \<le> c - last (event_times p as)"
    proof (rule Cons.IH [OF r3 ne' _ ck1])
      show "gaps_below (h_debounce_seconds h)
           (case map_of pend' p of None \<Rightarrow> event_times p as
            | Some t0 \<Rightarrow> t0 # event_times p as)"
        using g by (simp add: r2 et split: option.splits)
      show "list_ex (\<lambda>c. h_debounce_seconds h \<le> c - last (event_times p as))
           (tick_times (after_last_event p as))"
        using ex by (simp only: al et)
    qed
    then show ?thesis unfolding et by (simp add: Tick pp r1)
  qed
qed

lemma round_only_ready:
  assumes "distinct (map fst pend)" "q \<in> set (fst (process_pending_files h c pend))"
  shows "\<exists>t. map_of pend q = Some t \<and> h_debounce_seconds h \<le> c - t"
proof -
  from assms(2) obtain kv where kv: "kv \<in> set pend" "ready h c kv" "fst kv = q"
    by (auto simp: process_pending_files_eq [OF assms(1)])
  from kv(1,3) have "(q, snd kv) \<in> set pend" by (cases kv) auto
  with assms(1) have "map_of pend q = Some (snd kv)" by simp
  with kv(2) show ?thesis by (simp add: ready_def)
qed


text \<open>
  Claim C5. For a path that \<open>_should_process_file\<close> accepts, take any sequence of steps
  of the handler, from an empty dictionary, in which the path has at least one file
  event, consecutive events for the path are less than the debounce time apart, the
  clock is consistent, and some round of the worker after the last event reads a clock
  at least the debounce time later. Then exactly one settle notification is given for
  the path, by a round whose clock is at least the debounce time after the last event.
  Every file event for the path stores its own time stamp for it, and a round hands a
  path on only when the time stamp stored for it is at least the debounce time old.
\<close>

theorem debounce_settles_once:
  assumes "should_process_file h p"
    and "event_times p as \<noteq> []"
    and "gaps_below (h_debounce_seconds h) (event_times p as)"
    and "clock_ok p as"
    and "list_ex (\<lambda>c. h_debounce_seconds h \<le> c - last (event_times p as))
           (tick_times (after_last_event p as))"
  shows "(\<exists>c. filter (\<lambda>n. fst n = p) (run h as []) = [(p, c)]
              \<and> h_debounce_seconds h \<le> c - last (event_times p as))
       \<and> (\<forall>pend t. map_of (on_created h (FsEvent False p) t pend) p = Some t
                   \<and> map_of (on_modified h (FsEvent False p) t pend) p = Some t)
       \<and> (\<forall>pend q c. distinct (map fst pend)
                       \<and> q \<in> set (fst (process_pending_files h c pend)) \<longrightarrow>
              (\<exists>t. map_of pend q = Some t \<and> h_debounce_seconds h \<le> c - t))"
proof (intro conjI allI impI)
  show "\<exists>c. filter (\<lambda>n. fst n = p) (run h as []) = [(p, c)]
              \<and> h_debounce_seconds h \<le> c - last (event_times p as)"
    by (rule run_burst [OF assms(1) _ assms(2) _ assms(4) assms(5)])
       (simp_all add: assms(3))
next
  fix pend t
  show "map_of (on_created h (FsEvent False p) t pend) p = Some t"
    by (rule event_for_path(1) [OF assms(1)])
  show "map_of (on_modified h (FsEvent False p) t pend) p = Some t"
    by (rule event_for_path(2) [OF assms(1)])
next
  fix pend q c
  assume "distinct (map fst pend) \<and> q \<in> set (fst (process_pending_files h c pend))"
  then show "\<exists>t. map_of pend q = Some t \<and> h_debounce_seconds h \<le> c - t"
    by (intro round_only_ready) simp_all
qed

theorem debounce_settles_once_witness:
  "should_process_file test_handler [''w'', ''a.jpg'']
   \<and> event_times [''w'', ''a.jpg''] test_events = [0, 2, 6]
   \<and> h_debounce_seconds test_handler = 5
   \<and> run test_handler test_events [] = [([''w'', ''a.jpg''], 11)]
   \<and> (\<exists>c. filter (\<lambda>n. fst n = [''w'', ''a.jpg'']) (run test_handler test_events [])
              = [([''w'', ''a.jpg''], c)]
          \<and> 5 \<le> c - 6)"
proof -
  let ?p = "[''w'', ''a.jpg'']"
  have sp: "should_process_file test_handler ?p"
    by (simp add: should_process_file_def test_handler_def new_handler_def basename_def
        suffix_to_prefix)
  have et: "event_times ?p test_events = [0, 2, 6]" by (simp add: test_events_def)
  have w: "h_debounce_seconds test_handler = 5"
    by (simp add: test_handler_def new_handler_def)
  have g: "gaps_below (h_debounce_seconds test_handler) (event_times ?p test_events)"
    by (simp add: et w)
  have ck: "clock_ok ?p test_events" by (simp add: test_events_def)
  have al: "tick_times (after_last_event ?p test_events) = [7, 11, 12]"
    by (simp add: test_events_def)
  have ex: "list_ex (\<lambda>c. h_debounce_seconds test_handler \<le> c - last (event_times ?p test_events))
           (tick_times (after_last_event ?p test_events))"
    by (simp add: al et w)
  have ne: "event_times ?p test_events \<noteq> []" by (simp add: et)
  have r: "run test_handler test_events [] = [(?p, 11)]"
    by (simp add: test_events_def on_created_def on_modified_def sp w
        process_pending_files_def)
  from debounce_settles_once [OF sp ne g ck ex, THEN conjunct1]
  have "\<exists>c. filter (\<lambda>n. fst n = ?p) (run test_handler test_events []) = [(?p, c)] \<and> 5 \<le> c - 6"
    by (simp add: et w)
  with sp et w r show ?thesis by (intro conjI)
qed

end
